theory Spec2Isabelle
  imports Complex_Main "HOL-Library.Log_Nat"
begin

section \<open>The engine boundary\<close>

text \<open>
  The game engine is a compiled collaborator. The adapter of
  \<^verbatim>\<open>pylatro_ai/balatro_env.py\<close> sees it through three calls only: the start of a
  run, \<^verbatim>\<open>engine.step(action)\<close>, and the optional snapshot
  \<^verbatim>\<open>engine.game_state()\<close>. What a call answers is an input of the model, so every
  theorem below holds for every engine.

  A \<^verbatim>\<open>StepResult\<close> carries a status string, an optional phase string, the legal
  actions as tuples whose first component is the action index (a Python integer), and an
  optional outcome. The scores and the money the engine reports, and the values the
  tracker derives from them by subtraction, are exact numbers, modelled as reals; the
  reward and the entries of the observation vector are floating-point values, modelled
  in the section on floating point below.
\<close>

record step_result =
  status :: string
  phase :: "string option"
  actions :: "(int \<times> string) list"
  finished :: "string option"

text \<open>What \<^verbatim>\<open>engine.game_state()\<close> does when it is asked: it raises, or it yields
  a state whose \<^verbatim>\<open>score()\<close> and \<^verbatim>\<open>money()\<close> are read.\<close>

datatype snapshot_reply = SnapshotRaises | Snapshot "real option" "real option"

text \<open>What \<^verbatim>\<open>engine.step(mapped_action)\<close> does: it raises, or it returns a step
  result; the snapshot reply is what a query right after that call would give.\<close>

datatype engine_reply = StepRaises | StepReturns step_result snapshot_reply

datatype error = EngineError | AttributeError | IndexError | OverflowError

section \<open>Floating point\<close>

text \<open>
  The reward is a Python float, an IEEE binary64 value, and the observation vector is a
  numpy array of binary32 values. A value of either format is a finite real, an infinity
  or a NaN; the sign of a zero, which Python's \<^verbatim>\<open>==\<close> does not see, is not kept.
  Every operation rounds its exact result to the nearest value of the format, a tie to
  the value with the even significand, and overflows to an infinity.
\<close>

datatype ieee = Finite real | PosInf | NegInf | NaN

definition round_half_even :: "real \<Rightarrow> int" where
  "round_half_even q =
     (let f = \<lfloor>q\<rfloor>; d = q - of_int f
      in if d < 1 / 2 then f else if 1 / 2 < d then f + 1 else if even f then f else f + 1)"

text \<open>The exponent of the power of two at or below \<open>\<bar>x\<bar>\<close>, for \<open>x \<noteq> 0\<close>.\<close>

definition binade :: "real \<Rightarrow> int" where
  "binade x =
     (if 1 \<le> \<bar>x\<bar> then bitlen \<lfloor>\<bar>x\<bar>\<rfloor> - 1 else - bitlen (\<lceil>1 / \<bar>x\<bar>\<rceil> - 1))"

text \<open>Rounding to a format with \<open>p\<close> significant bits and exponents from \<open>emin\<close> to
  \<open>emax\<close>: below \<open>2 ^ emin\<close> the spacing stays that of the subnormal values.\<close>

definition round_ieee :: "nat \<Rightarrow> int \<Rightarrow> int \<Rightarrow> real \<Rightarrow> ieee" where
  "round_ieee p emin emax x =
     (if x = 0 then Finite 0
      else
        (let ulp = 2 powi (max (binade x) emin - int p + 1);
             y = of_int (round_half_even (x / ulp)) * ulp
         in if 2 powi (emax + 1) \<le> \<bar>y\<bar> then (if 0 < x then PosInf else NegInf)
            else Finite y))"

definition fl64 :: "real \<Rightarrow> ieee" where
  "fl64 = round_ieee 53 (- 1022) 1023"

definition fl32 :: "real \<Rightarrow> ieee" where
  "fl32 = round_ieee 24 (- 126) 127"

text \<open>An exact number lies in the range of a float when its rounding is finite.\<close>

definition double_range :: "real \<Rightarrow> bool" where
  "double_range x = (case fl64 x of Finite y \<Rightarrow> True | _ \<Rightarrow> False)"

text \<open>The conversion of an exact number to a float where Python mixes it with a float:
  a number too large raises \<^verbatim>\<open>OverflowError\<close>, and a number that is a float already is
  unchanged.\<close>

definition to_double :: "real \<Rightarrow> error + ieee" where
  "to_double x = (if double_range x then Inr (fl64 x) else Inl OverflowError)"

text \<open>Float addition and multiplication: the exact result, rounded. An infinity
  times zero, and the sum of the two infinities, is a NaN.\<close>

definition dadd :: "ieee \<Rightarrow> ieee \<Rightarrow> ieee" where
  "dadd a b =
     (case (a, b) of
        (Finite x, Finite y) \<Rightarrow> fl64 (x + y)
      | (NaN, _) \<Rightarrow> NaN
      | (_, NaN) \<Rightarrow> NaN
      | (PosInf, NegInf) \<Rightarrow> NaN
      | (NegInf, PosInf) \<Rightarrow> NaN
      | (PosInf, _) \<Rightarrow> PosInf
      | (_, PosInf) \<Rightarrow> PosInf
      | (NegInf, _) \<Rightarrow> NegInf
      | (_, NegInf) \<Rightarrow> NegInf)"

definition ieee_sign :: "ieee \<Rightarrow> int" where
  "ieee_sign a =
     (case a of
        Finite x \<Rightarrow> if 0 < x then 1 else if x < 0 then - 1 else 0
      | PosInf \<Rightarrow> 1
      | NegInf \<Rightarrow> - 1
      | NaN \<Rightarrow> 0)"

definition dmul :: "ieee \<Rightarrow> ieee \<Rightarrow> ieee" where
  "dmul a b =
     (case (a, b) of
        (Finite x, Finite y) \<Rightarrow> fl64 (x * y)
      | (NaN, _) \<Rightarrow> NaN
      | (_, NaN) \<Rightarrow> NaN
      | _ \<Rightarrow> if ieee_sign a * ieee_sign b = 0 then NaN
             else if 0 < ieee_sign a * ieee_sign b then PosInf else NegInf)"

definition ieee_nonneg :: "ieee \<Rightarrow> bool" where
  "ieee_nonneg a = (case a of Finite x \<Rightarrow> 0 \<le> x | PosInf \<Rightarrow> True | _ \<Rightarrow> False)"

text \<open>The conversion of a float to \<^verbatim>\<open>np.float32\<close>, and one entry of
  \<^verbatim>\<open>np.array([...], dtype=np.float32)\<close>: the Python number becomes a float first and
  is then narrowed.\<close>

definition to_float32 :: "ieee \<Rightarrow> ieee" where
  "to_float32 d = (case d of Finite x \<Rightarrow> fl32 x | _ \<Rightarrow> d)"

definition np_float32 :: "real \<Rightarrow> error + ieee" where
  "np_float32 x = (case to_double x of Inl err \<Rightarrow> Inl err | Inr d \<Rightarrow> Inr (to_float32 d))"

fun np_array_float32 :: "real list \<Rightarrow> error + ieee list" where
  "np_array_float32 [] = Inr []"
| "np_array_float32 (x # xs) =
     (case np_float32 x of
        Inl err \<Rightarrow> Inl err
      | Inr v \<Rightarrow>
          (case np_array_float32 xs of Inl err \<Rightarrow> Inl err | Inr vs \<Rightarrow> Inr (v # vs)))"

section \<open>The adapter state\<close>

text \<open>
  The attributes of \<^verbatim>\<open>BalatroEnv\<close>. The two baselines
  \<^verbatim>\<open>blind_score_at_start\<close> and \<^verbatim>\<open>blind_money_at_start\<close> are not created by
  \<^verbatim>\<open>__init__\<close>; here \<open>None\<close> stands for the missing attribute, and reading it is
  an \<open>AttributeError\<close>.
\<close>

record balatro_env =
  seed :: int
  deck_type_str :: string
  stake_level_str :: string
  max_episode_steps :: int
  quiet :: bool
  initial_score :: real
  initial_money :: real
  current_score :: real
  current_money :: real
  step_count :: int
  blind_started :: bool
  blind_finished :: bool
  prev_phase :: "string option"
  previous_score :: real
  previous_money :: real
  last_valid_actions :: "int list"
  blind_score_at_start :: "real option"
  blind_money_at_start :: "real option"

text \<open>The two module constants are float literals: \<^verbatim>\<open>1000.0\<close> is exact, and
  \<^verbatim>\<open>-0.01\<close> is the float nearest to one hundredth, negated.\<close>

definition BLIND_COMPLETION_BASE_REWARD :: ieee where
  "BLIND_COMPLETION_BASE_REWARD = Finite 1000"

definition STEP_REWARD :: ieee where
  "STEP_REWARD = fl64 (- (1 / 100))"

definition phases :: "string list" where
  "phases = [''Shop'', ''ShopPackSelection'', ''BlindSelect'', ''Playing'', ''RoundEnd'',
     ''GameOver'']"

text \<open>\<^verbatim>\<open>{phase: i for i, phase in enumerate(phases)}\<close>: the entries are stored one
  after the other, a later one replacing an earlier one with the same key.\<close>

definition phase_to_idx :: "string \<rightharpoonup> nat" where
  "phase_to_idx = fold (\<lambda>(i, p) m. m(p \<mapsto> i)) (enumerate 0 phases) Map.empty"

text \<open>\<^verbatim>\<open>__init__\<close>, with the seed already chosen (the source draws a random one
  when none is given).\<close>

definition init :: "int \<Rightarrow> string \<Rightarrow> string \<Rightarrow> int \<Rightarrow> bool \<Rightarrow> balatro_env" where
  "init sd deck_type stake_level max_steps q =
     \<lparr> seed = sd, deck_type_str = deck_type, stake_level_str = stake_level,
       max_episode_steps = max_steps, quiet = q,
       initial_score = 0, initial_money = 0, current_score = 0, current_money = 0,
       step_count = 0, blind_started = False, blind_finished = False, prev_phase = None,
       previous_score = 0, previous_money = 0, last_valid_actions = [],
       blind_score_at_start = None, blind_money_at_start = None \<rparr>"

section \<open>Observation encoding\<close>

text \<open>\<^verbatim>\<open>_get_game_info\<close>: a dictionary from field names to numbers. The entry
  \<^verbatim>\<open>"previous_score"\<close> holds \<^verbatim>\<open>self.previous_money\<close> in the source.\<close>

definition get_game_info :: "balatro_env \<Rightarrow> (string \<rightharpoonup> real)" where
  "get_game_info e =
     [ ''score'' \<mapsto> current_score e,
       ''previous_score'' \<mapsto> previous_money e,
       ''money'' \<mapsto> current_money e,
       ''previous_money'' \<mapsto> previous_money e,
       ''ante'' \<mapsto> 1,
       ''round'' \<mapsto> 1,
       ''hands_remaining'' \<mapsto> 4,
       ''discards_remaining'' \<mapsto> 3,
       ''blind_started'' \<mapsto> (if blind_started e then 1 else 0),
       ''blind_finished'' \<mapsto> (if blind_finished e then 1 else 0),
       ''step_count'' \<mapsto> real_of_int (step_count e),
       ''phase_idx'' \<mapsto> 0 ]"

text \<open>The phase index of \<^verbatim>\<open>_extract_observation\<close>: \<open>0\<close> unless the phase is a
  non-empty string (Python truthiness) that is a key of \<^verbatim>\<open>phase_to_idx\<close>.\<close>

definition phase_idx_of :: "string option \<Rightarrow> nat" where
  "phase_idx_of p =
     (case p of
        None \<Rightarrow> 0
      | Some s \<Rightarrow> if s \<noteq> [] then (case phase_to_idx s of Some i \<Rightarrow> i | None \<Rightarrow> 0) else 0)"

text \<open>
  The loop that fills the mask: \<^verbatim>\<open>if action_idx < 100: available_actions[action_idx] = 1\<close>.
  The array is a numpy vector, so an index from \<open>-n\<close> to \<open>-1\<close> counts from the end
  and an index below \<open>-n\<close> raises \<open>IndexError\<close>.
\<close>

fun fill_mask :: "int list \<Rightarrow> int list \<Rightarrow> error + int list" where
  "fill_mask available [] = Inr available"
| "fill_mask available (action_idx # rest) =
     (if action_idx < 100 then
        (let n = int (length available) in
         if 0 \<le> action_idx \<and> action_idx < n then
           fill_mask (available[nat action_idx := 1]) rest
         else if action_idx < 0 \<and> - n \<le> action_idx then
           fill_mask (available[nat (action_idx + n) := 1]) rest
         else Inl IndexError)
      else fill_mask available rest)"

record observation =
  obs_phase :: "nat list"
  available_actions :: "int list"
  game_info :: "ieee list"

definition extract_observation :: "balatro_env \<Rightarrow> step_result \<Rightarrow> error + observation" where
  "extract_observation e sr =
     (let phase_idx = phase_idx_of (phase sr);
          valid_actions = map fst (actions sr)
      in case fill_mask (replicate 100 0) valid_actions of
           Inl err \<Rightarrow> Inl err
         | Inr available \<Rightarrow>
             (let game_info_dict = (get_game_info e)(''phase_idx'' \<mapsto> real phase_idx)
              in case np_array_float32
                        [ the (game_info_dict ''score''),
                          the (game_info_dict ''money''),
                          the (game_info_dict ''ante''),
                          the (game_info_dict ''round''),
                          the (game_info_dict ''hands_remaining''),
                          the (game_info_dict ''discards_remaining''),
                          the (game_info_dict ''blind_started''),
                          the (game_info_dict ''blind_finished''),
                          the (game_info_dict ''step_count''),
                          real phase_idx ] of
                   Inl err \<Rightarrow> Inl err
                 | Inr info_vector \<Rightarrow>
                     Inr \<lparr> obs_phase = [phase_idx],
                           available_actions = available,
                           game_info = info_vector \<rparr>))"

section \<open>Reward and termination\<close>

text \<open>The condition under which \<^verbatim>\<open>_calculate_reward\<close> adds the completion bonus.\<close>

definition bonus_due :: "balatro_env \<Rightarrow> step_result \<Rightarrow> bool" where
  "bonus_due e sr \<longleftrightarrow> phase sr = Some ''RoundEnd'' \<and> blind_started e \<and> blind_finished e"

text \<open>\<^verbatim>\<open>_calculate_reward\<close>. The score gain is an exact number; the money gain times
  \<^verbatim>\<open>250.0\<close> is a float, and so is every sum from there on, each addition rounding in
  the order of the source.\<close>

definition calculate_reward :: "balatro_env \<Rightarrow> step_result \<Rightarrow> error + ieee" where
  "calculate_reward e sr =
     (let score_reward = max 0 (current_score e - previous_score e)
      in case to_double (max 0 (current_money e - previous_money e)) of
           Inl err \<Rightarrow> Inl err
         | Inr money_gain \<Rightarrow>
             (let money_reward = dmul money_gain (Finite 250)
              in case to_double score_reward of
                   Inl err \<Rightarrow> Inl err
                 | Inr score_gain \<Rightarrow>
                     (let total_reward = dadd (dadd score_gain money_reward) STEP_REWARD
                      in Inr (if bonus_due e sr
                              then dadd total_reward BLIND_COMPLETION_BASE_REWARD
                              else total_reward))))"

definition is_done :: "balatro_env \<Rightarrow> step_result \<Rightarrow> bool" where
  "is_done e sr =
     (if status sr = ''Finished'' then True
      else if phase sr = Some ''RoundEnd'' \<and> blind_started e then True
      else if step_count e \<ge> max_episode_steps e then True
      else False)"

section \<open>Reset\<close>

datatype info_value =
    VStr string
  | VOptStr "string option"
  | VNum real
  | VBool bool
  | VInt int
  | VIntList "int list"

type_synonym info = "(string \<times> info_value) list"

text \<open>What the engine calls of \<^verbatim>\<open>_reset_engine\<close> do together: one of them raises,
  or all of them return.\<close>

datatype setup_reply = SetupRaises | SetupReturns

text \<open>\<^verbatim>\<open>_reset_engine\<close>: the tracking variables are reset only after the engine
  calls have returned.\<close>

definition reset_engine :: "balatro_env \<Rightarrow> setup_reply \<Rightarrow> balatro_env \<times> error option" where
  "reset_engine e r =
     (case r of
        SetupRaises \<Rightarrow> (e, Some EngineError)
      | SetupReturns \<Rightarrow>
          (e\<lparr> initial_score := 0, initial_money := 0, current_score := 0,
              current_money := 0, step_count := 0, previous_score := 0,
              previous_money := 0, prev_phase := None, last_valid_actions := [] \<rparr>, None))"

definition reset ::
  "balatro_env \<Rightarrow> int option \<Rightarrow> setup_reply \<Rightarrow> engine_reply
     \<Rightarrow> balatro_env \<times> (error + observation \<times> info)" where
  "reset e sd setup probe =
     (let e0 = (case sd of Some s \<Rightarrow> e\<lparr>seed := s\<rparr> | None \<Rightarrow> e)
      in case reset_engine e0 setup of
           (e1, Some err) \<Rightarrow> (e1, Inl err)
         | (e1, None) \<Rightarrow>
             (case probe of
                StepRaises \<Rightarrow> (e1, Inl EngineError)
              | StepReturns sr snap \<Rightarrow>
                  (case extract_observation e1 sr of
                     Inl err \<Rightarrow> (e1, Inl err)
                   | Inr obs \<Rightarrow>
                       (let e2 = e1\<lparr>last_valid_actions := map fst (actions sr)\<rparr>;
                            info = [ (''phase'', VOptStr (phase sr)),
                                    (''status'', VStr (status sr)),
                                    (''valid_actions'', VIntList (last_valid_actions e2)) ];
                            e3 = e2\<lparr>prev_phase := phase sr\<rparr>
                        in (e3, Inr (obs, info))))))"

section \<open>Step\<close>

text \<open>\<^verbatim>\<open>_try_get_score_money\<close>: any exception of the query is caught and answered
  by \<^verbatim>\<open>(None, None)\<close>.\<close>

definition try_get_score_money :: "snapshot_reply \<Rightarrow> real option \<times> real option" where
  "try_get_score_money r =
     (case r of SnapshotRaises \<Rightarrow> (None, None) | Snapshot sc mo \<Rightarrow> (sc, mo))"

text \<open>The action filter at the head of \<^verbatim>\<open>step\<close>: the mapped action and the
  penalty.\<close>

definition resolve_action :: "int \<Rightarrow> int list \<Rightarrow> int \<times> ieee" where
  "resolve_action action valid =
     (if action \<notin> set valid then
        (if valid \<noteq> [] then (valid ! 0, Finite (- 10)) else (0, Finite (- (1 / 2))))
      else (action, Finite 0))"

text \<open>\<^verbatim>\<open>current_score = score - blind_score_at_start\<close> and the same for money, as the
  two assignments of the source: the first missing baseline raises.\<close>

definition refresh_current :: "balatro_env \<Rightarrow> real \<Rightarrow> real \<Rightarrow> balatro_env \<times> error option" where
  "refresh_current e score money =
     (case blind_score_at_start e of
        None \<Rightarrow> (e, Some AttributeError)
      | Some s0 \<Rightarrow>
          (let e1 = e\<lparr>current_score := score - s0\<rparr>
           in case blind_money_at_start e1 of
                None \<Rightarrow> (e1, Some AttributeError)
              | Some m0 \<Rightarrow> (e1\<lparr>current_money := money - m0\<rparr>, None)))"

text \<open>The phase tracker of \<^verbatim>\<open>step\<close>: the chain of \<^verbatim>\<open>if\<close>/\<^verbatim>\<open>elif\<close> on the
  new phase, in the order of the source. The snapshot is asked for only in the last three
  branches.\<close>

definition update_tracking ::
  "balatro_env \<Rightarrow> step_result \<Rightarrow> snapshot_reply \<Rightarrow> balatro_env \<times> error option" where
  "update_tracking e sr snap =
     (if phase sr = Some ''BlindSelect'' then
        (e\<lparr>blind_started := False, blind_finished := False\<rparr>, None)
      else if phase sr = Some ''Playing'' \<and> prev_phase e \<noteq> Some ''Playing'' then
        (let e1 = e\<lparr>blind_started := True\<rparr>
         in case try_get_score_money snap of
              (Some score, Some money) \<Rightarrow>
                (e1\<lparr>blind_score_at_start := Some score,
                    blind_money_at_start := Some money\<rparr>, None)
            | _ \<Rightarrow>
                (e1\<lparr>blind_score_at_start := Some (current_score e1),
                    blind_money_at_start := Some (current_money e1)\<rparr>, None))
      else if phase sr = Some ''RoundEnd'' \<and> blind_started e then
        (let e1 = e\<lparr>blind_finished := True\<rparr>
         in case try_get_score_money snap of
              (Some score, Some money) \<Rightarrow> refresh_current e1 score money
            | _ \<Rightarrow> (e1, None))
      else if phase sr = Some ''Playing'' \<and> blind_started e then
        (case try_get_score_money snap of
           (Some score, Some money) \<Rightarrow> refresh_current e score money
         | _ \<Rightarrow> (e, None))
      else (e, None))"

type_synonym step_return = "observation \<times> ieee \<times> bool \<times> bool \<times> info"

definition step ::
  "balatro_env \<Rightarrow> int \<Rightarrow> engine_reply \<Rightarrow> balatro_env \<times> (error + step_return)" where
  "step e action reply =
     (let e1 = e\<lparr>step_count := step_count e + 1\<rparr>;
          (mapped_action, invalid_action_penalty) =
             resolve_action action (last_valid_actions e1)
      in case reply of
           StepRaises \<Rightarrow> (e1, Inl EngineError)
         | StepReturns sr snap \<Rightarrow>
             (case update_tracking e1 sr snap of
                (e2, Some err) \<Rightarrow> (e2, Inl err)
              | (e2, None) \<Rightarrow>
                  (let e3 = e2\<lparr>prev_phase := phase sr\<rparr>
                   in case extract_observation e3 sr of
                        Inl err \<Rightarrow> (e3, Inl err)
                      | Inr obs \<Rightarrow>
                          (let e4 = e3\<lparr>last_valid_actions := map fst (actions sr)\<rparr>
                           in case calculate_reward e4 sr of
                                Inl err \<Rightarrow> (e4, Inl err)
                              | Inr reward \<Rightarrow>
                          (let e5 = e4\<lparr>previous_score := current_score e4,
                                       previous_money := current_money e4\<rparr>;
                               reward' = dadd reward invalid_action_penalty;
                               terminated = is_done e5 sr;
                               truncated = False;
                               info = [ (''phase'', VOptStr (phase sr)),
                                       (''status'', VStr (status sr)),
                                       (''score'', VNum (current_score e5)),
                                       (''money'', VNum (current_money e5)),
                                       (''action_mapped'', VBool (action \<noteq> mapped_action)),
                                       (''original_action'', VInt action),
                                       (''mapped_action'', VInt mapped_action),
                                       (''valid_actions'', VIntList (last_valid_actions e5)),
                                       (''finished'', VOptStr (finished sr)) ]
                           in (e5, Inr (obs, reward', terminated, truncated, info)))))))"

section \<open>Episodes\<close>

text \<open>
  The loop of a caller (\<^verbatim>\<open>debug_agent.py\<close>, the tests): it steps until a step reports
  \<^verbatim>\<open>terminated or truncated\<close>. The run stops as well when a step raises. Each entry
  records the state before the step, the requested action, the engine's step result, the
  state after the step and what the step returned.
\<close>

type_synonym step_record = "balatro_env \<times> int \<times> step_result \<times> balatro_env \<times> step_return"

fun run_episode :: "balatro_env \<Rightarrow> (int \<times> engine_reply) list \<Rightarrow> step_record list" where
  "run_episode e [] = []"
| "run_episode e ((action, reply) # rest) =
     (case reply of
        StepRaises \<Rightarrow> []
      | StepReturns sr snap \<Rightarrow>
          (case step e action reply of
             (e', Inl err) \<Rightarrow> []
           | (e', Inr (obs, reward, terminated, truncated, info)) \<Rightarrow>
               (e, action, sr, e', (obs, reward, terminated, truncated, info))
               # (if terminated \<or> truncated then [] else run_episode e' rest)))"

section \<open>A sample run\<close>

text \<open>
  The scenario of the tests: seed 12345, deck \<^verbatim>\<open>Red\<close>, stake \<^verbatim>\<open>White\<close>. The engine
  answers the probe of \<^verbatim>\<open>reset\<close> with the blind selection, then \<^verbatim>\<open>step(1)\<close> enters the
  playing phase, \<^verbatim>\<open>step(2)\<close> stays in it, and \<^verbatim>\<open>step(999)\<close>, an index the engine did
  not offer, ends the round.
\<close>

definition demo_env0 :: balatro_env where
  "demo_env0 = init 12345 ''Red'' ''White'' 1000 True"

definition demo_probe :: engine_reply where
  "demo_probe = StepReturns
     \<lparr> status = ''NeedsInput'', phase = Some ''BlindSelect'',
       actions = [(1, ''Select Boss Blind''), (4, ''View Blind Details'')],
       finished = None \<rparr> SnapshotRaises"

definition demo_env1 :: balatro_env where
  "demo_env1 = fst (reset demo_env0 None SetupReturns demo_probe)"

definition demo_playing :: engine_reply where
  "demo_playing = StepReturns
     \<lparr> status = ''NeedsInput'', phase = Some ''Playing'',
       actions = [(0, ''Play selected cards''), (2, ''Select card'')],
       finished = None \<rparr> (Snapshot (Some 0) (Some 4))"

definition demo_env2 :: balatro_env where
  "demo_env2 = fst (step demo_env1 1 demo_playing)"

definition demo_playing_on :: engine_reply where
  "demo_playing_on = StepReturns
     \<lparr> status = ''NeedsInput'', phase = Some ''Playing'',
       actions = [(0, ''Play selected cards''), (2, ''Select card'')],
       finished = None \<rparr> (Snapshot (Some 120) (Some 4))"

definition demo_env3 :: balatro_env where
  "demo_env3 = fst (step demo_env2 2 demo_playing_on)"

definition demo_round_end :: engine_reply where
  "demo_round_end = StepReturns
     \<lparr> status = ''NeedsInput'', phase = Some ''RoundEnd'',
       actions = [(1, ''Cash Out'')], finished = None \<rparr> (Snapshot (Some 300) (Some 7))"

definition demo_env4 :: balatro_env where
  "demo_env4 = fst (step demo_env3 999 demo_round_end)"

text \<open>After the round: the engine moves on to the shop, or to the next blind
  selection.\<close>

definition demo_shop :: engine_reply where
  "demo_shop = StepReturns
     \<lparr> status = ''NeedsInput'', phase = Some ''Shop'',
       actions = [(1, ''Next Round'')], finished = None \<rparr> (Snapshot (Some 300) (Some 7))"

definition demo_env5 :: balatro_env where
  "demo_env5 = fst (step demo_env4 1 demo_shop)"

definition demo_next_blind :: engine_reply where
  "demo_next_blind = StepReturns
     \<lparr> status = ''NeedsInput'', phase = Some ''BlindSelect'',
       actions = [(1, ''Select Boss Blind'')], finished = None \<rparr> SnapshotRaises"

definition demo_env6 :: balatro_env where
  "demo_env6 = fst (step demo_env5 1 demo_next_blind)"

text \<open>The inputs of the run as a caller's loop meets them.\<close>

definition demo_inputs :: "(int \<times> engine_reply) list" where
  "demo_inputs =
     [(1, demo_playing), (2, demo_playing_on), (999, demo_round_end), (1, demo_shop)]"

text \<open>A second continuation of the run: the engine answers \<^verbatim>\<open>step(1)\<close> with status
  \<^verbatim>\<open>Progressed\<close> and no legal action, so the cached list is empty at the next step.\<close>

definition demo_progressed :: engine_reply where
  "demo_progressed = StepReturns
     \<lparr> status = ''Progressed'', phase = Some ''Playing'', actions = [], finished = None \<rparr>
     (Snapshot (Some 0) (Some 4))"

definition demo_env2' :: balatro_env where
  "demo_env2' = fst (step demo_env1 1 demo_progressed)"

text \<open>A step result with a phase the adapter does not know, one index of which lies
  beyond the mask, and a state whose score is not a \<^verbatim>\<open>float32\<close> value.\<close>

definition demo_unknown_phase :: step_result where
  "demo_unknown_phase =
     \<lparr> status = ''NeedsInput'', phase = Some ''Menu'',
       actions = [(1, ''Start Game''), (150, ''Exit'')], finished = None \<rparr>"

definition demo_env_high_score :: balatro_env where
  "demo_env_high_score = demo_env2\<lparr>current_score := 16777217\<rparr>"

section \<open>Output suppression\<close>

text \<open>
  \<^verbatim>\<open>_suppress_output\<close> works on the descriptor table of the process. A descriptor is
  a number; the table says what each open descriptor refers to; \<^verbatim>\<open>nofile\<close> is the limit
  on descriptor numbers, and a call that needs a new descriptor takes the lowest free one
  or fails with \<open>EMFILE\<close>. Besides the table the state holds Python's \<^verbatim>\<open>sys.stdout\<close> and
  \<^verbatim>\<open>sys.stderr\<close>, the descriptors released so far, and a log of the engine calls with what
  descriptors 1 and 2 referred to while each call ran.
\<close>

datatype target = DevNull | Stream nat

datatype os_error = EBADF | EMFILE

text \<open>An engine call may raise an exception that derives from \<^verbatim>\<open>Exception\<close>, or one
  that derives from \<^verbatim>\<open>BaseException\<close> only (a panic of the compiled engine, an
  interrupt).\<close>

datatype exn = OSError os_error | EngineException | PanicException

datatype 'a outcome = Returned 'a | Raised exn

text \<open>A stream object of Python: one that was there before, or a writer on the null
  device that owns a descriptor.\<close>

datatype py_stream = PriorStream nat | NullWriter nat

datatype engine_call =
    NewEngine | NewDeckType | NewStakeLevel | SetSelectedDeck | SetSelectedStake
  | StartNewRun | EngineStep | GameState

record os_state =
  fds :: "nat \<Rightarrow> target option"
  nofile :: nat
  sys_stdout :: py_stream
  sys_stderr :: py_stream
  released :: "nat list"
  calls :: "(engine_call \<times> target option \<times> target option) list"

definition is_Exception :: "exn \<Rightarrow> bool" where
  "is_Exception x = (case x of OSError e \<Rightarrow> True | EngineException \<Rightarrow> True
                     | PanicException \<Rightarrow> False)"

definition lowest_free :: "os_state \<Rightarrow> nat option" where
  "lowest_free s = List.find (\<lambda>n. fds s n = None) [0..<nofile s]"

definition free_count :: "os_state \<Rightarrow> nat" where
  "free_count s = length (filter (\<lambda>n. fds s n = None) [0..<nofile s])"

text \<open>\<^verbatim>\<open>os.dup(fd)\<close>.\<close>

definition os_dup :: "nat \<Rightarrow> os_state \<Rightarrow> os_state \<times> (os_error + nat)" where
  "os_dup fd s =
     (case fds s fd of
        None \<Rightarrow> (s, Inl EBADF)
      | Some t \<Rightarrow>
          (case lowest_free s of
             None \<Rightarrow> (s, Inl EMFILE)
           | Some n \<Rightarrow> (s\<lparr>fds := (fds s)(n \<mapsto> t)\<rparr>, Inr n)))"

text \<open>\<^verbatim>\<open>os.open(os.devnull, os.O_WRONLY)\<close>.\<close>

definition os_open_devnull :: "os_state \<Rightarrow> os_state \<times> (os_error + nat)" where
  "os_open_devnull s =
     (case lowest_free s of
        None \<Rightarrow> (s, Inl EMFILE)
      | Some n \<Rightarrow> (s\<lparr>fds := (fds s)(n \<mapsto> DevNull)\<rparr>, Inr n))"

text \<open>\<^verbatim>\<open>os.dup2(src, dst)\<close>: \<open>dst\<close> is closed silently if open and then refers to what
  \<open>src\<close> refers to.\<close>

definition os_dup2 :: "nat \<Rightarrow> nat \<Rightarrow> os_state \<Rightarrow> os_state \<times> os_error option" where
  "os_dup2 src dst s =
     (case fds s src of
        None \<Rightarrow> (s, Some EBADF)
      | Some t \<Rightarrow>
          if dst < nofile s then (s\<lparr>fds := (fds s)(dst \<mapsto> t)\<rparr>, None)
          else (s, Some EBADF))"

text \<open>\<^verbatim>\<open>os.close(fd)\<close>.\<close>

definition os_close :: "nat \<Rightarrow> os_state \<Rightarrow> os_state \<times> os_error option" where
  "os_close fd s =
     (case fds s fd of
        None \<Rightarrow> (s, Some EBADF)
      | Some t \<Rightarrow> (s\<lparr>fds := (fds s)(fd := None), released := released s @ [fd]\<rparr>, None))"

text \<open>\<^verbatim>\<open>open(os.devnull, 'w')\<close>: a writer with a descriptor of its own.\<close>

definition py_open_devnull :: "os_state \<Rightarrow> os_state \<times> (os_error + py_stream)" where
  "py_open_devnull s =
     (case os_open_devnull s of
        (s', Inl e) \<Rightarrow> (s', Inl e)
      | (s', Inr n) \<Rightarrow> (s', Inr (NullWriter n)))"

text \<open>\<^verbatim>\<open>stream.close()\<close>: a writer releases its descriptor; the streams that were
  there before are never closed by the guard, and closing one is not modelled further.\<close>

definition py_close :: "py_stream \<Rightarrow> os_state \<Rightarrow> os_state \<times> os_error option" where
  "py_close f s = (case f of NullWriter n \<Rightarrow> os_close n s | PriorStream k \<Rightarrow> (s, None))"

text \<open>Statements one after the other: the first error ends the sequence.\<close>

definition seq ::
  "(os_state \<Rightarrow> os_state \<times> os_error option) \<Rightarrow> (os_state \<Rightarrow> os_state \<times> os_error option)
     \<Rightarrow> os_state \<Rightarrow> os_state \<times> os_error option" where
  "seq a b s = (case a s of (s', Some e) \<Rightarrow> (s', Some e) | (s', None) \<Rightarrow> b s')"

text \<open>The \<^verbatim>\<open>finally\<close> block of the guard.\<close>

definition finally_restore ::
  "nat \<Rightarrow> nat \<Rightarrow> nat \<Rightarrow> py_stream \<Rightarrow> py_stream \<Rightarrow> os_state \<Rightarrow> os_state \<times> os_error option" where
  "finally_restore original_stdout_fd original_stderr_fd devnull original_stdout
       original_stderr =
     seq (\<lambda>s. py_close (sys_stdout s) s)
    (seq (\<lambda>s. py_close (sys_stderr s) s)
    (seq (\<lambda>s. (s\<lparr>sys_stdout := original_stdout\<rparr>, None))
    (seq (\<lambda>s. (s\<lparr>sys_stderr := original_stderr\<rparr>, None))
    (seq (os_dup2 original_stdout_fd 1)
    (seq (os_dup2 original_stderr_fd 2)
    (seq (os_close original_stdout_fd)
    (seq (os_close original_stderr_fd)
         (os_close devnull))))))))"

text \<open>The handler \<^verbatim>\<open>except Exception\<close>: it tries to restore once more and swallows
  whatever that raises.\<close>

definition handler_restore :: "nat \<Rightarrow> nat \<Rightarrow> os_state \<Rightarrow> os_state" where
  "handler_restore original_stdout_fd original_stderr_fd s =
     fst ((seq (os_dup2 original_stdout_fd 1)
          (seq (os_dup2 original_stderr_fd 2)
          (seq (os_close original_stdout_fd)
               (os_close original_stderr_fd)))) s)"

text \<open>The outer \<^verbatim>\<open>try\<close> block: redirect, run the body at the \<^verbatim>\<open>yield\<close>, and restore
  in the \<^verbatim>\<open>finally\<close> block whether the body returned or raised. An error of the
  \<^verbatim>\<open>finally\<close> block replaces the outcome of the body.\<close>

definition redirected ::
  "nat \<Rightarrow> nat \<Rightarrow> (os_state \<Rightarrow> os_state \<times> 'a outcome) \<Rightarrow> os_state \<Rightarrow> os_state \<times> 'a outcome" where
  "redirected original_stdout_fd original_stderr_fd body s =
     (case os_open_devnull s of
        (s1, Inl e) \<Rightarrow> (s1, Raised (OSError e))
      | (s1, Inr devnull) \<Rightarrow>
     (case os_dup2 devnull 1 s1 of
        (s2, Some e) \<Rightarrow> (s2, Raised (OSError e))
      | (s2, None) \<Rightarrow>
     (case os_dup2 devnull 2 s2 of
        (s3, Some e) \<Rightarrow> (s3, Raised (OSError e))
      | (s3, None) \<Rightarrow>
     (let original_stdout = sys_stdout s3;
          original_stderr = sys_stderr s3
      in case py_open_devnull s3 of
           (s4, Inl e) \<Rightarrow> (s4, Raised (OSError e))
         | (s4, Inr out) \<Rightarrow>
     (let s5 = s4\<lparr>sys_stdout := out\<rparr>
      in case py_open_devnull s5 of
           (s6, Inl e) \<Rightarrow> (s6, Raised (OSError e))
         | (s6, Inr err) \<Rightarrow>
     (let s7 = s6\<lparr>sys_stderr := err\<rparr>;
          (s8, result) = body s7
      in case finally_restore original_stdout_fd original_stderr_fd devnull
                original_stdout original_stderr s8 of
           (s9, Some e) \<Rightarrow> (s9, Raised (OSError e))
         | (s9, None) \<Rightarrow> (s9, result)))))))"

text \<open>\<^verbatim>\<open>with self._suppress_output(): body\<close>. The two \<^verbatim>\<open>os.dup\<close> calls stand before the
  \<^verbatim>\<open>try\<close>; the handler runs for an exception that derives from \<^verbatim>\<open>Exception\<close> and raises
  it again. Without \<^verbatim>\<open>quiet\<close> the guard does nothing.\<close>

definition suppress_output ::
  "bool \<Rightarrow> (os_state \<Rightarrow> os_state \<times> 'a outcome) \<Rightarrow> os_state \<Rightarrow> os_state \<times> 'a outcome" where
  "suppress_output q body s =
     (if q then
        (case os_dup 1 s of
           (s1, Inl e) \<Rightarrow> (s1, Raised (OSError e))
         | (s1, Inr original_stdout_fd) \<Rightarrow>
        (case os_dup 2 s1 of
           (s2, Inl e) \<Rightarrow> (s2, Raised (OSError e))
         | (s2, Inr original_stderr_fd) \<Rightarrow>
        (case redirected original_stdout_fd original_stderr_fd body s2 of
           (s3, Returned v) \<Rightarrow> (s3, Returned v)
         | (s3, Raised x) \<Rightarrow>
             if is_Exception x
             then (handler_restore original_stdout_fd original_stderr_fd s3, Raised x)
             else (s3, Raised x))))
      else body s)"

subsection \<open>The engine calls of reset and step\<close>

text \<open>An engine call, as the descriptor table sees it: whatever the engine prints goes
  to what descriptors 1 and 2 refer to at that moment, which the log records. The outcome
  of the call is an input.\<close>

definition call_engine ::
  "engine_call \<Rightarrow> 'a outcome \<Rightarrow> os_state \<Rightarrow> os_state \<times> 'a outcome" where
  "call_engine c r s = (s\<lparr>calls := calls s @ [(c, fds s 1, fds s 2)]\<rparr>, r)"

definition then_do ::
  "(os_state \<Rightarrow> os_state \<times> 'a outcome) \<Rightarrow> ('a \<Rightarrow> os_state \<Rightarrow> os_state \<times> 'b outcome)
     \<Rightarrow> os_state \<Rightarrow> os_state \<times> 'b outcome" where
  "then_do m f s = (case m s of (s', Raised x) \<Rightarrow> (s', Raised x) | (s', Returned v) \<Rightarrow> f v s')"

text \<open>The engine calls of \<^verbatim>\<open>reset\<close>, in the order of \<^verbatim>\<open>_reset_engine\<close> and
  \<^verbatim>\<open>reset\<close>: only the start of the run and the probe stand under the guard.\<close>

definition reset_io ::
  "bool \<Rightarrow> (engine_call \<Rightarrow> unit outcome) \<Rightarrow> step_result outcome \<Rightarrow> os_state
     \<Rightarrow> os_state \<times> step_result outcome" where
  "reset_io q answer probe =
     then_do (call_engine NewEngine (answer NewEngine)) (\<lambda>_.
     then_do (call_engine NewDeckType (answer NewDeckType)) (\<lambda>_.
     then_do (call_engine NewStakeLevel (answer NewStakeLevel)) (\<lambda>_.
     then_do (call_engine SetSelectedDeck (answer SetSelectedDeck)) (\<lambda>_.
     then_do (call_engine SetSelectedStake (answer SetSelectedStake)) (\<lambda>_.
     then_do (suppress_output q (call_engine StartNewRun (answer StartNewRun))) (\<lambda>_.
     suppress_output q (call_engine EngineStep probe)))))))"

text \<open>The branches of the phase tracker that call \<^verbatim>\<open>_try_get_score_money\<close>.\<close>

definition asks_snapshot :: "balatro_env \<Rightarrow> step_result \<Rightarrow> bool" where
  "asks_snapshot e sr \<longleftrightarrow>
     phase sr \<noteq> Some ''BlindSelect''
     \<and> ((phase sr = Some ''Playing'' \<and> prev_phase e \<noteq> Some ''Playing'')
        \<or> (phase sr = Some ''RoundEnd'' \<and> blind_started e)
        \<or> (phase sr = Some ''Playing'' \<and> blind_started e))"

text \<open>\<^verbatim>\<open>_try_get_score_money\<close> as an engine call: \<^verbatim>\<open>except Exception\<close> catches what the
  query raises unless it derives from \<^verbatim>\<open>BaseException\<close> only.\<close>

definition try_get_score_money_io ::
  "(real option \<times> real option) outcome \<Rightarrow> os_state
     \<Rightarrow> os_state \<times> (real option \<times> real option) outcome" where
  "try_get_score_money_io answer s =
     (case call_engine GameState answer s of
        (s', Returned v) \<Rightarrow> (s', Returned v)
      | (s', Raised x) \<Rightarrow>
          if is_Exception x then (s', Returned (None, None)) else (s', Raised x))"

text \<open>The engine calls of \<^verbatim>\<open>step\<close>: the step itself under the guard, then the snapshot
  query, outside the guard, in the branches of the tracker that ask for it.\<close>

definition step_io ::
  "balatro_env \<Rightarrow> step_result outcome \<Rightarrow> (real option \<times> real option) outcome \<Rightarrow> os_state
     \<Rightarrow> os_state \<times> step_result outcome" where
  "step_io e answer snap_answer =
     then_do (suppress_output (quiet e) (call_engine EngineStep answer)) (\<lambda>sr.
       if asks_snapshot (e\<lparr>step_count := step_count e + 1\<rparr>) sr
       then then_do (try_get_score_money_io snap_answer) (\<lambda>_ s. (s, Returned sr))
       else (\<lambda>s. (s, Returned sr)))"

subsection \<open>What the guard is to keep\<close>

text \<open>The guard can do its work when descriptors 1 and 2 are open and five more are
  free: two for the duplicates, one for the null device, two for the writers.\<close>

definition guard_pre :: "target \<Rightarrow> target \<Rightarrow> os_state \<Rightarrow> bool" where
  "guard_pre t1 t2 s \<longleftrightarrow>
     fds s 1 = Some t1 \<and> fds s 2 = Some t2 \<and> 2 < nofile s \<and> 5 \<le> free_count s"

text \<open>The descriptor table and the two Python streams are as they were.\<close>

definition restored_after :: "os_state \<Rightarrow> os_state \<Rightarrow> bool" where
  "restored_after s s' \<longleftrightarrow>
     fds s' = fds s \<and> nofile s' = nofile s
     \<and> sys_stdout s' = sys_stdout s \<and> sys_stderr s' = sys_stderr s"

text \<open>A log entry is in order when the start of the run and the engine steps ran with
  descriptors 1 and 2 on the null device, and every other engine call with the two
  descriptors as they were.\<close>

definition call_ok ::
  "target \<Rightarrow> target \<Rightarrow> engine_call \<times> target option \<times> target option \<Rightarrow> bool" where
  "call_ok t1 t2 entry =
     (case entry of
        (c, out, err) \<Rightarrow>
          if c = StartNewRun \<or> c = EngineStep
          then out = Some DevNull \<and> err = Some DevNull
          else out = Some t1 \<and> err = Some t2)"

text \<open>A piece of the adapter's input and output is safe when, started where the guard
  can work, it leaves the table and the streams as they were and logs only entries that
  are in order.\<close>

definition io_safe ::
  "target \<Rightarrow> target \<Rightarrow> (os_state \<Rightarrow> os_state \<times> 'a outcome) \<Rightarrow> bool" where
  "io_safe t1 t2 m \<longleftrightarrow>
     (\<forall>s. guard_pre t1 t2 s \<longrightarrow>
        (\<exists>s' r new. m s = (s', r) \<and> restored_after s s'
           \<and> calls s' = calls s @ new \<and> list_all (call_ok t1 t2) new))"

text \<open>A process with the usual three descriptors open, a limit of eight, and the
  sample environment in quiet mode.\<close>

definition demo_os :: os_state where
  "demo_os = \<lparr> fds = (\<lambda>n. if n < 3 then Some (Stream n) else None), nofile = 8,
               sys_stdout = PriorStream 1, sys_stderr = PriorStream 2,
               released = [], calls = [] \<rparr>"

text \<open>The same process with one free descriptor left.\<close>

definition demo_os_full :: os_state where
  "demo_os_full = demo_os\<lparr>nofile := 4\<rparr>"

section \<open>Facts about the floating-point model\<close>

text \<open>The binade of a number is the exponent of the power of two at or below it.\<close>

lemma binade_lower:
  assumes "x \<noteq> 0"
  shows "2 powi (binade x) \<le> \<bar>x\<bar>"
proof (cases "1 \<le> \<bar>x\<bar>")
  case True
  define n where "n = \<lfloor>\<bar>x\<bar>\<rfloor>"
  from True have n: "0 < n" by (simp add: n_def)
  from bitlen_bounds[OF n] have b: "2 ^ nat (bitlen n - 1) \<le> n" "n < 2 ^ nat (bitlen n)"
    by simp_all
  have "1 \<le> bitlen n"
  proof (rule ccontr)
    assume "\<not> 1 \<le> bitlen n"
    then have "nat (bitlen n) = 0" by simp
    with b(2) n show False by simp
  qed
  then have "2 powi (bitlen n - 1) = (2::real) ^ nat (bitlen n - 1)"
    by (simp add: power_int_def)
  also have "\<dots> = of_int (2 ^ nat (bitlen n - 1))" by simp
  also have "\<dots> \<le> of_int n" using b(1) by (simp only: of_int_le_iff)
  also have "\<dots> \<le> \<bar>x\<bar>" by (simp add: n_def)
  finally show ?thesis using True by (simp add: binade_def n_def)
next
  case False
  with assms have x: "0 < \<bar>x\<bar>" "\<bar>x\<bar> < 1" by simp_all
  define c where "c = \<lceil>1 / \<bar>x\<bar>\<rceil> - 1"
  from x have "1 < 1 / \<bar>x\<bar>" by (simp add: field_simps)
  then have "1 < \<lceil>1 / \<bar>x\<bar>\<rceil>" by (simp add: less_ceiling_iff)
  then have c: "0 < c" by (simp add: c_def)
  have "1 / \<bar>x\<bar> \<le> of_int (c + 1)" by (simp add: c_def)
  also have "c + 1 \<le> 2 ^ nat (bitlen c)" using bitlen_bounds[OF c] by simp
  then have "(of_int (c + 1) :: real) \<le> of_int (2 ^ nat (bitlen c))" by (simp only: of_int_le_iff)
  finally have "1 / \<bar>x\<bar> \<le> 2 ^ nat (bitlen c)" by simp
  with x(1) have "1 / 2 ^ nat (bitlen c) \<le> \<bar>x\<bar>"
    by (simp add: field_simps)
  moreover have "2 powi (- bitlen c) = 1 / (2::real) ^ nat (bitlen c)"
    using bitlen_nonneg[of c] by (simp add: power_int_minus power_int_def field_simps)
  ultimately show ?thesis using False by (simp add: binade_def c_def)
qed

lemma binade_upper:
  assumes "x \<noteq> 0"
  shows "\<bar>x\<bar> < 2 powi (binade x + 1)"
proof (cases "1 \<le> \<bar>x\<bar>")
  case True
  define n where "n = \<lfloor>\<bar>x\<bar>\<rfloor>"
  from True have n: "0 < n" by (simp add: n_def)
  from bitlen_bounds[OF n] have "n + 1 \<le> 2 ^ nat (bitlen n)" by simp
  then have "(of_int (n + 1) :: real) \<le> of_int (2 ^ nat (bitlen n))"
    by (simp only: of_int_le_iff)
  moreover have "\<bar>x\<bar> < of_int (n + 1)" by (simp add: n_def)
  ultimately have "\<bar>x\<bar> < 2 ^ nat (bitlen n)" by simp
  moreover have "2 powi (bitlen n) = (2::real) ^ nat (bitlen n)"
    using bitlen_nonneg[of n] by (simp add: power_int_def)
  ultimately show ?thesis using True by (simp add: binade_def n_def)
next
  case False
  with assms have x: "0 < \<bar>x\<bar>" "\<bar>x\<bar> < 1" by simp_all
  define c where "c = \<lceil>1 / \<bar>x\<bar>\<rceil> - 1"
  from x have "1 < 1 / \<bar>x\<bar>" by (simp add: field_simps)
  then have "1 < \<lceil>1 / \<bar>x\<bar>\<rceil>" by (simp add: less_ceiling_iff)
  then have c: "0 < c" by (simp add: c_def)
  have l1: "1 \<le> bitlen c"
  proof (rule ccontr)
    assume "\<not> 1 \<le> bitlen c"
    then have "nat (bitlen c) = 0" by simp
    with bitlen_bounds[OF c] c show False by simp
  qed
  have "(of_int (2 ^ nat (bitlen c - 1)) :: real) \<le> of_int c"
    using bitlen_bounds[OF c] by (simp only: of_int_le_iff)
  also have "of_int c < 1 / \<bar>x\<bar>"
    using ceiling_correct[of "1 / \<bar>x\<bar>"] by (simp add: c_def)
  finally have "2 ^ nat (bitlen c - 1) < 1 / \<bar>x\<bar>" by simp
  with x(1) have "\<bar>x\<bar> < 1 / 2 ^ nat (bitlen c - 1)"
    by (simp add: field_simps)
  moreover have "2 powi (- bitlen c + 1) = 1 / (2::real) ^ nat (bitlen c - 1)"
  proof -
    have "- bitlen c + 1 = - (bitlen c - 1)" by simp
    then have "2 powi (- bitlen c + 1) = inverse ((2::real) powi (bitlen c - 1))"
      by (simp only: power_int_minus)
    also have "\<dots> = 1 / (2::real) ^ nat (bitlen c - 1)"
      using l1 by (simp add: power_int_def field_simps)
    finally show ?thesis .
  qed
  ultimately show ?thesis using False by (simp add: binade_def c_def)
qed

lemma binade_unique:
  assumes "2 powi b \<le> \<bar>x\<bar>" "\<bar>x\<bar> < 2 powi (b + 1)"
  shows "binade x = b"
proof -
  have "(0::real) < 2 powi b" by simp
  with assms(1) have "0 < \<bar>x\<bar>" by linarith
  then have x: "x \<noteq> 0" by simp
  have "binade x < b + 1"
  proof (rule ccontr)
    assume "\<not> binade x < b + 1"
    then have "(2::real) powi (b + 1) \<le> 2 powi (binade x)"
      by (intro power_int_increasing) simp_all
    with binade_lower[OF x] assms(2) show False by simp
  qed
  moreover have "b < binade x + 1"
  proof (rule ccontr)
    assume "\<not> b < binade x + 1"
    then have "(2::real) powi (binade x + 1) \<le> 2 powi b"
      by (intro power_int_increasing) simp_all
    with binade_upper[OF x] assms(1) show False by simp
  qed
  ultimately show ?thesis by simp
qed

lemma round_half_even_of_int: "round_half_even (of_int n) = n"
  by (simp add: round_half_even_def)

text \<open>A number with a significand of at most \<open>p\<close> bits and an exponent the format has is
  a value of the format: rounding leaves it as it is.\<close>

lemma round_ieee_exact:
  assumes "\<bar>m\<bar> < 2 ^ p" "emin - int p + 1 \<le> e"
    and "\<bar>of_int m * 2 powi e\<bar> < (2::real) powi (emax + 1)"
  shows "round_ieee p emin emax (of_int m * 2 powi e) = Finite (of_int m * 2 powi e)"
proof (cases "m = 0")
  case True
  then show ?thesis by (simp add: round_ieee_def)
next
  case False
  define x :: real where "x = of_int m * 2 powi e"
  have x: "x \<noteq> 0" using False by (simp add: x_def)
  have "\<bar>x\<bar> = of_int \<bar>m\<bar> * 2 powi e" by (simp add: x_def abs_mult)
  also have "\<dots> < of_int (2 ^ p) * 2 powi e"
    using assms(1) by (intro mult_strict_right_mono) (simp_all only: of_int_less_iff zero_less_power_int zero_less_numeral)
  also have "\<dots> = 2 powi (int p + e)" by (simp add: power_int_add)
  finally have ub: "\<bar>x\<bar> < 2 powi (int p + e)" .
  have b: "binade x < int p + e"
  proof (rule ccontr)
    assume "\<not> binade x < int p + e"
    then have "(2::real) powi (int p + e) \<le> 2 powi (binade x)"
      by (intro power_int_increasing) simp_all
    with binade_lower[OF x] ub show False by simp
  qed
  define k where "k = max (binade x) emin - int p + 1"
  from b assms(2) have k: "k \<le> e" by (simp add: k_def)
  have "x / 2 powi k = of_int m * 2 powi (e - k)"
    by (simp add: x_def power_int_diff)
  also have "\<dots> = of_int (m * 2 ^ nat (e - k))"
    using k by (simp add: power_int_def)
  finally have q: "x / 2 powi k = of_int (m * 2 ^ nat (e - k))" .
  have "of_int (round_half_even (x / 2 powi k)) * 2 powi k = x / 2 powi k * 2 powi k"
    by (simp only: q round_half_even_of_int)
  also have "\<dots> = x" by simp
  finally have y: "of_int (round_half_even (x / 2 powi k)) * 2 powi k = x" .
  from assms(3) have "\<not> 2 powi (emax + 1) \<le> \<bar>x\<bar>" by (simp add: x_def)
  with x y show ?thesis
    unfolding x_def[symmetric] by (simp add: round_ieee_def Let_def k_def[symmetric])
qed

text \<open>The rounding of any other number, from the power of two below it.\<close>

lemma round_ieee_eval:
  assumes "2 powi b \<le> \<bar>x\<bar>" "\<bar>x\<bar> < 2 powi (b + 1)"
    and "round_half_even (x / 2 powi (max b emin - int p + 1)) = m"
    and "\<bar>of_int m * 2 powi (max b emin - int p + 1)\<bar> < (2::real) powi (emax + 1)"
  shows "round_ieee p emin emax x = Finite (of_int m * 2 powi (max b emin - int p + 1))"
proof -
  have "(0::real) < 2 powi b" by simp
  with assms(1) have "0 < \<bar>x\<bar>" by linarith
  then have x: "x \<noteq> 0" by simp
  from assms(4) have "\<not> (2::real) powi (emax + 1) \<le> \<bar>of_int m * 2 powi (max b emin - int p + 1)\<bar>"
    by simp
  with x assms(3) show ?thesis
    by (simp add: round_ieee_def Let_def binade_unique[OF assms(1,2)])
qed

lemma fl64_of_int:
  assumes "\<bar>n\<bar> < 2 ^ 53"
  shows "fl64 (of_int n) = Finite (of_int n)"
proof -
  have "\<bar>real_of_int n\<bar> < 2 ^ 53" using assms
    by (metis of_int_abs of_int_less_numeral_power_cancel_iff)
  also have "\<dots> < (2::real) powi (1023 + 1)" by simp
  finally have "\<bar>real_of_int n * 2 powi 0\<bar> < (2::real) powi (1023 + 1)" by simp
  from round_ieee_exact[of n 53 "- 1022" 0 1023, OF assms _ this]
  show ?thesis by (simp add: fl64_def)
qed

lemma fl32_of_int:
  assumes "\<bar>n\<bar> < 2 ^ 24"
  shows "fl32 (of_int n) = Finite (of_int n)"
proof -
  have "\<bar>real_of_int n\<bar> < 2 ^ 24" using assms
    by (metis of_int_abs of_int_less_numeral_power_cancel_iff)
  also have "\<dots> < (2::real) powi (127 + 1)" by simp
  finally have "\<bar>real_of_int n * 2 powi 0\<bar> < (2::real) powi (127 + 1)" by simp
  from round_ieee_exact[of n 24 "- 126" 0 127, OF assms _ this]
  show ?thesis by (simp add: fl32_def)
qed

text \<open>Rounding is a projection: the result of a rounding is a value of the format, so
  rounding it again, and adding zero to it, change nothing.\<close>

lemma round_half_even_bounds:
  assumes "- of_int N < q" "q < of_int N"
  shows "\<bar>round_half_even q\<bar> \<le> N"
proof -
  from assms(2) have "\<lfloor>q\<rfloor> < N" by (simp add: floor_less_iff)
  moreover from assms(1) have "- N \<le> \<lfloor>q\<rfloor>" by (simp add: le_floor_iff)
  ultimately show ?thesis by (auto simp: round_half_even_def Let_def)
qed

lemma round_ieee_idem:
  assumes "round_ieee p emin emax x = Finite y" "0 < p"
  shows "round_ieee p emin emax y = Finite y"
proof (cases "x = 0")
  case True
  with assms show ?thesis by (auto simp: round_ieee_def)
next
  case False
  define k where "k = max (binade x) emin - int p + 1"
  define M where "M = round_half_even (x / 2 powi k)"
  from assms(1) False have y: "y = of_int M * 2 powi k"
    and fin: "\<bar>of_int M * 2 powi k\<bar> < (2::real) powi (emax + 1)"
    by (auto simp: round_ieee_def Let_def k_def M_def split: if_splits)
  have k1: "emin - int p + 1 \<le> k" and k2: "binade x + 1 - k \<le> int p"
    by (simp_all add: k_def)
  have "\<bar>x\<bar> / 2 powi k < 2 powi (binade x + 1) / 2 powi k"
    using binade_upper[OF False] by (simp add: divide_strict_right_mono)
  also have "\<dots> = 2 powi (binade x + 1 - k)" by (simp add: power_int_diff)
  also have "\<dots> \<le> 2 powi (int p)" using k2 by (intro power_int_increasing) simp_all
  finally have "\<bar>x / 2 powi k\<bar> < of_int (2 ^ p)" by simp
  then have "- of_int (2 ^ p) < x / 2 powi k" "x / 2 powi k < of_int (2 ^ p)"
    by (simp_all only: abs_less_iff minus_less_iff)
  from round_half_even_bounds[OF this] have M: "\<bar>M\<bar> \<le> 2 ^ p" by (simp add: M_def)
  show ?thesis
  proof (cases "\<bar>M\<bar> = 2 ^ p")
    case False
    with M have "\<bar>M\<bar> < 2 ^ p" by simp
    from round_ieee_exact[OF this k1 fin] show ?thesis by (simp add: y)
  next
    case True
    from assms(2) obtain p' where p': "p = Suc p'" by (cases p) auto
    define H :: int where "H = (if 0 < M then 2 ^ p' else - (2 ^ p'))"
    from True p' have M2: "M = H * 2"
      by (auto simp: H_def abs_if split: if_splits)
    have H: "\<bar>H\<bar> < 2 ^ p" by (simp add: H_def p')
    have eq: "real_of_int M * 2 powi k = of_int H * 2 powi (k + 1)"
      by (simp add: M2 power_int_add)
    from k1 have k1': "emin - int p + 1 \<le> k + 1" by simp
    from round_ieee_exact[OF H k1' fin[unfolded eq]] show ?thesis by (simp add: y eq)
  qed
qed

lemma fl64_idem: "fl64 x = Finite y \<Longrightarrow> fl64 y = Finite y"
  unfolding fl64_def by (rule round_ieee_idem) simp_all

lemma dadd_zero_right: "dadd (dadd a b) (Finite 0) = dadd a b"
proof (cases "dadd a b")
  case (Finite y)
  then obtain u v where "a = Finite u" "b = Finite v" "fl64 (u + v) = Finite y"
    by (cases a; cases b) (simp_all add: dadd_def)
  from fl64_idem[OF this(3)] Finite show ?thesis by (simp add: dadd_def)
qed (simp_all add: dadd_def)

text \<open>So whole numbers below \<open>2 ^ 53\<close> are floats, and those below \<open>2 ^ 24\<close> are
  \<^verbatim>\<open>float32\<close> values; the literal \<^verbatim>\<open>0.01\<close> is not.\<close>

lemma fl64_numeral:
  "(numeral k :: int) < 2 ^ 53 \<Longrightarrow> fl64 (numeral k) = Finite (numeral k)"
  using fl64_of_int[of "numeral k"] by simp

lemma fl64_neg_numeral:
  "(numeral k :: int) < 2 ^ 53 \<Longrightarrow> fl64 (- numeral k) = Finite (- numeral k)"
  using fl64_of_int[of "- numeral k"] by simp

lemma fl64_0: "fl64 0 = Finite 0"
  by (simp add: fl64_def round_ieee_def)

lemma fl64_1: "fl64 1 = Finite 1"
  using fl64_of_int[of 1] by simp

lemma fl32_numeral:
  "(numeral k :: int) < 2 ^ 24 \<Longrightarrow> fl32 (numeral k) = Finite (numeral k)"
  using fl32_of_int[of "numeral k"] by simp

lemma fl32_0: "fl32 0 = Finite 0"
  by (simp add: fl32_def round_ieee_def)

lemma fl32_1: "fl32 1 = Finite 1"
  using fl32_of_int[of 1] by simp

lemma double_range_of_int: "\<bar>n\<bar> < 2 ^ 53 \<Longrightarrow> double_range (of_int n)"
  by (simp add: double_range_def fl64_of_int)

lemma double_range_numeral: "(numeral k :: int) < 2 ^ 53 \<Longrightarrow> double_range (numeral k)"
  by (simp add: double_range_def fl64_numeral)

lemma double_range_0: "double_range 0"
  by (simp add: double_range_def fl64_0)

lemma double_range_1: "double_range 1"
  by (simp add: double_range_def fl64_1)

lemmas float_evals =
  to_double_def np_float32_def to_float32_def double_range_numeral double_range_0
  double_range_1 fl64_numeral fl64_0 fl64_1 fl32_numeral fl32_0 fl32_1

lemma STEP_REWARD_value:
  "STEP_REWARD = Finite (- (5764607523034235 / 576460752303423488))"
  using round_ieee_eval[of "- 7" "- (1 / 100)" "- 1022" 53 "- 5764607523034235" 1023]
  by (simp add: STEP_REWARD_def fl64_def round_half_even_def)

lemma np_float32_of_int:
  assumes "\<bar>n\<bar> < 2 ^ 24"
  shows "np_float32 (of_int n) = Inr (Finite (of_int n))"
proof -
  from assms have "\<bar>n\<bar> < 2 ^ 53" by simp
  then show ?thesis
    by (simp add: np_float32_def to_double_def to_float32_def double_range_of_int
          fl64_of_int fl32_of_int[OF assms])
qed

lemma np_float32_small:
  "np_float32 0 = Inr (Finite 0)" "np_float32 1 = Inr (Finite 1)"
  "np_float32 2 = Inr (Finite 2)" "np_float32 3 = Inr (Finite 3)"
  "np_float32 4 = Inr (Finite 4)" "np_float32 5 = Inr (Finite 5)"
  by (simp_all add: float_evals)

lemma np_float32_in_range:
  "double_range x \<Longrightarrow> np_float32 x = Inr (to_float32 (fl64 x))"
  by (simp add: np_float32_def to_double_def)

lemma np_float32_out_of_range:
  "\<not> double_range x \<Longrightarrow> np_float32 x = Inl OverflowError"
  by (simp add: np_float32_def to_double_def)

text \<open>Rounding keeps the sign: a number that is not negative rounds to a float that is
  not negative, and so do the sum of two such floats and the product with \<open>250\<close>.\<close>

lemma round_half_even_nonneg: "0 \<le> q \<Longrightarrow> 0 \<le> round_half_even q"
  by (auto simp: round_half_even_def Let_def)

lemma round_ieee_nonneg:
  assumes "0 \<le> x"
  shows "ieee_nonneg (round_ieee p emin emax x)"
proof (cases "x = 0")
  case True
  then show ?thesis by (simp add: round_ieee_def ieee_nonneg_def)
next
  case False
  with assms have pos: "0 < x" by simp
  define ulp :: real where "ulp = 2 powi (max (binade x) emin - int p + 1)"
  have u: "0 < ulp" by (simp add: ulp_def)
  with pos have "0 \<le> x / ulp" by simp
  then have "0 \<le> round_half_even (x / ulp)" by (rule round_half_even_nonneg)
  with u have "0 \<le> of_int (round_half_even (x / ulp)) * ulp" by simp
  with pos False show ?thesis
    by (simp add: round_ieee_def ieee_nonneg_def Let_def ulp_def)
qed

lemma fl64_nonneg: "0 \<le> x \<Longrightarrow> ieee_nonneg (fl64 x)"
  by (simp add: fl64_def round_ieee_nonneg)

lemma ieee_nonneg_simps:
  "ieee_nonneg (Finite x) \<longleftrightarrow> 0 \<le> x" "ieee_nonneg PosInf"
  "\<not> ieee_nonneg NegInf" "\<not> ieee_nonneg NaN"
  by (simp_all add: ieee_nonneg_def)

lemma dadd_nonneg:
  assumes "ieee_nonneg a" "ieee_nonneg b"
  shows "ieee_nonneg (dadd a b)"
  using assms
  by (cases a; cases b) (simp_all add: dadd_def ieee_nonneg_simps fl64_nonneg)

lemma dmul_250_nonneg:
  assumes "0 \<le> x" "double_range x"
  shows "ieee_nonneg (dmul (fl64 x) (Finite 250))"
proof -
  from assms(2) obtain y where y: "fl64 x = Finite y"
    by (auto simp: double_range_def split: ieee.splits)
  from fl64_nonneg[OF assms(1)] y have "0 \<le> y" by (simp add: ieee_nonneg_simps)
  then have "ieee_nonneg (fl64 (y * 250))" by (intro fl64_nonneg) simp
  with y show ?thesis by (simp add: dmul_def)
qed

text \<open>Both operations are commutative.\<close>

lemma dadd_commute: "dadd a b = dadd b a"
  by (cases a; cases b) (simp_all add: dadd_def add.commute)

lemma dmul_commute: "dmul a b = dmul b a"
  by (cases a; cases b) (simp_all add: dmul_def mult.commute)

text \<open>The rewards of the sample run, as the floats they are.\<close>

lemma fl64_929_99:
  "fl64 (930 - 5764607523034235 / 576460752303423488) =
     Finite (4090139274861609 / 4398046511104)"
  using round_ieee_eval[of 9 "930 - 5764607523034235 / 576460752303423488" "- 1022" 53
          8180278549723218 1023]
  by (simp add: fl64_def round_half_even_def)

lemma fl64_1929_99:
  "fl64 (4090139274861609 / 4398046511104 + 1000) =
     Finite (8488185785965609 / 4398046511104)"
  using round_ieee_eval[of 10 "4090139274861609 / 4398046511104 + 1000" "- 1022" 53
          8488185785965609 1023]
  by (simp add: fl64_def round_half_even_def)

lemma fl64_1919_99:
  "fl64 (8488185785965609 / 4398046511104 - 10) =
     Finite (8444205320854569 / 4398046511104)"
  using round_ieee_eval[of 10 "8488185785965609 / 4398046511104 - 10" "- 1022" 53
          8444205320854569 1023]
  by (simp add: fl64_def round_half_even_def)

lemma fl64_119_99:
  "fl64 (120 - 5764607523034235 / 576460752303423488) =
     Finite (8443545613877903 / 70368744177664)"
  using round_ieee_eval[of 6 "120 - 5764607523034235 / 576460752303423488" "- 1022" 53
          8443545613877903 1023]
  by (simp add: fl64_def round_half_even_def)

lemma fl64_119_49:
  "fl64 (8443545613877903 / 70368744177664 - 1 / 2) =
     Finite (8408361241789071 / 70368744177664)"
  using round_ieee_eval[of 6 "8443545613877903 / 70368744177664 - 1 / 2" "- 1022" 53
          8408361241789071 1023]
  by (simp add: fl64_def round_half_even_def)

text \<open>930 points, the step cost, the bonus and the penalty of ten: the float
  \<^verbatim>\<open>1919.99\<close>.\<close>

lemma demo_reward_round_end:
  "dadd (dadd (dadd (dadd (Finite 180) (dmul (Finite 250) (Finite 3))) (fl64 (- (1 / 100))))
      (Finite 1000)) (Finite (- 10)) = Finite (8444205320854569 / 4398046511104)"
proof -
  have "dmul (Finite 250) (Finite 3) = Finite 750"
    using fl64_numeral[of "Num.num.Bit0 (Num.num.Bit1 (Num.num.Bit1 (Num.num.Bit1 (Num.num.Bit0 (Num.num.Bit1 (Num.num.Bit1 (Num.num.Bit1 (Num.num.Bit0 Num.num.One))))))))"]
    by (simp add: dmul_def)
  moreover have "dadd (Finite 180) (Finite 750) = Finite 930"
    by (simp add: dadd_def fl64_numeral)
  moreover have "dadd (Finite 930) (fl64 (- (1 / 100))) = Finite (4090139274861609 / 4398046511104)"
    using fl64_929_99 STEP_REWARD_value by (simp add: dadd_def STEP_REWARD_def)
  moreover have "dadd (Finite (4090139274861609 / 4398046511104)) (Finite 1000)
      = Finite (8488185785965609 / 4398046511104)"
    using fl64_1929_99 by (simp add: dadd_def)
  moreover have "dadd (Finite (8488185785965609 / 4398046511104)) (Finite (- 10))
      = Finite (8444205320854569 / 4398046511104)"
    using fl64_1919_99 by (simp add: dadd_def)
  ultimately show ?thesis by simp
qed

text \<open>120 points, nothing for money, the step cost and the penalty of one half: the
  float \<^verbatim>\<open>119.49\<close>.\<close>

lemma demo_reward_fallback:
  "dadd (dadd (dadd (Finite 120) (dmul (Finite 0) (Finite 250))) STEP_REWARD)
      (Finite (- (1 / 2))) = Finite (8408361241789071 / 70368744177664)"
proof -
  have "dmul (Finite 0) (Finite 250) = Finite 0"
    by (simp add: dmul_def fl64_0)
  moreover have "dadd (Finite 120) (Finite 0) = Finite 120"
    by (simp add: dadd_def fl64_numeral)
  moreover have "dadd (Finite 120) STEP_REWARD = Finite (8443545613877903 / 70368744177664)"
    using fl64_119_99 by (simp add: dadd_def STEP_REWARD_value)
  moreover have "dadd (Finite (8443545613877903 / 70368744177664)) (Finite (- (1 / 2)))
      = Finite (8408361241789071 / 70368744177664)"
    using fl64_119_49 by (simp add: dadd_def)
  ultimately show ?thesis by simp
qed

text \<open>The order of the additions shows in the result. Ten points gained on a request
  that was remapped, for the penalty of ten: the sum the source takes is the float
  \<^verbatim>\<open>-0.009999999999999787\<close>, whereas adding the penalty before the step cost would
  give \<^verbatim>\<open>-0.01\<close>.\<close>

lemma fl64_9_99:
  "fl64 (10 - 5764607523034235 / 576460752303423488) =
     Finite (5623870034678907 / 562949953421312)"
  using round_ieee_eval[of 3 "10 - 5764607523034235 / 576460752303423488" "- 1022" 53
          5623870034678907 1023]
  by (simp add: fl64_def round_half_even_def)

lemma fl64_9_99_less_10:
  "fl64 (5623870034678907 / 562949953421312 - 10) =
     Finite (- (5629499534213 / 562949953421312))"
  using round_ieee_eval[of "- 7" "5623870034678907 / 562949953421312 - 10" "- 1022" 53
          "- 5764607523034112" 1023]
  by (simp add: fl64_def round_half_even_def)

lemma reward_order_of_additions:
  "dadd (dadd (dadd (Finite 10) (dmul (Finite 0) (Finite 250))) STEP_REWARD) (Finite (- 10))
     = Finite (- (5629499534213 / 562949953421312))"
  "dadd (dadd (dadd (Finite 10) (dmul (Finite 0) (Finite 250))) (Finite (- 10))) STEP_REWARD
     = Finite (- (5764607523034235 / 576460752303423488))"
proof -
  have m: "dmul (Finite 0) (Finite 250) = Finite 0"
    by (simp add: dmul_def fl64_0)
  have a: "dadd (Finite 10) (Finite 0) = Finite 10"
    by (simp add: dadd_def fl64_numeral)
  have "dadd (Finite 10) STEP_REWARD = Finite (5623870034678907 / 562949953421312)"
    using fl64_9_99 by (simp add: dadd_def STEP_REWARD_value)
  moreover have "dadd (Finite (5623870034678907 / 562949953421312)) (Finite (- 10))
      = Finite (- (5629499534213 / 562949953421312))"
    using fl64_9_99_less_10 by (simp add: dadd_def)
  ultimately show "dadd (dadd (dadd (Finite 10) (dmul (Finite 0) (Finite 250))) STEP_REWARD)
      (Finite (- 10)) = Finite (- (5629499534213 / 562949953421312))"
    by (simp add: m a)
  have "dadd (Finite 10) (Finite (- 10)) = Finite 0"
    by (simp add: dadd_def fl64_0)
  moreover have "dadd (Finite 0) STEP_REWARD = Finite (- (5764607523034235 / 576460752303423488))"
    using fl64_idem[OF STEP_REWARD_value[unfolded STEP_REWARD_def]]
    by (simp add: dadd_def STEP_REWARD_value)
  ultimately show "dadd (dadd (dadd (Finite 10) (dmul (Finite 0) (Finite 250)))
      (Finite (- 10))) STEP_REWARD = Finite (- (5764607523034235 / 576460752303423488))"
    by (simp add: m a)
qed

section \<open>What a returning step did\<close>

text \<open>A step that returns went through every stage of \<^verbatim>\<open>step\<close>: the engine
  returned, the tracker and the encoder raised nothing.\<close>

lemma step_returnsE:
  assumes "step e action reply = (e', Inr (obs, reward, terminated, truncated, info))"
  obtains sr snap e2 where
    "reply = StepReturns sr snap"
    "update_tracking (e\<lparr>step_count := step_count e + 1\<rparr>) sr snap = (e2, None)"
    "extract_observation (e2\<lparr>prev_phase := phase sr\<rparr>) sr = Inr obs"
    "e' = e2\<lparr>prev_phase := phase sr, last_valid_actions := map fst (actions sr),
             previous_score := current_score e2, previous_money := current_money e2\<rparr>"
    "\<exists>r. calculate_reward (e2\<lparr>prev_phase := phase sr,
                 last_valid_actions := map fst (actions sr)\<rparr>) sr = Inr r
         \<and> reward = dadd r (snd (resolve_action action (last_valid_actions e)))"
    "terminated = is_done e' sr"
    "truncated = False"
    "info = [ (''phase'', VOptStr (phase sr)),
              (''status'', VStr (status sr)),
              (''score'', VNum (current_score e')),
              (''money'', VNum (current_money e')),
              (''action_mapped'',
                 VBool (action \<noteq> fst (resolve_action action (last_valid_actions e)))),
              (''original_action'', VInt action),
              (''mapped_action'', VInt (fst (resolve_action action (last_valid_actions e)))),
              (''valid_actions'', VIntList (map fst (actions sr))),
              (''finished'', VOptStr (finished sr)) ]"
  using assms
  by (auto simp: step_def Let_def split: engine_reply.splits prod.splits option.splits sum.splits)

lemma step_shape:
  assumes "\<not> isl (snd (step e action reply))"
  shows "\<exists>obs reward terminated truncated info.
           step e action reply = (fst (step e action reply),
                                  Inr (obs, reward, terminated, truncated, info))"
proof (cases "step e action reply")
  case (Pair e' res)
  with assms obtain ret where "res = Inr ret" by (cases res) auto
  moreover obtain obs reward terminated truncated info
    where "ret = (obs, reward, terminated, truncated, info)" by (cases ret) auto
  ultimately show ?thesis using Pair by simp
qed

text \<open>The tracker touches the blind flags, the baselines and the current score and
  money only.\<close>

lemma update_tracking_frame:
  assumes "update_tracking e sr snap = (e2, None)"
  shows "step_count e2 = step_count e \<and> max_episode_steps e2 = max_episode_steps e
       \<and> previous_score e2 = previous_score e \<and> previous_money e2 = previous_money e
       \<and> last_valid_actions e2 = last_valid_actions e \<and> prev_phase e2 = prev_phase e"
  using assms
  by (auto simp: update_tracking_def refresh_current_def Let_def
           split: if_splits prod.splits option.splits)

section \<open>The sample run, evaluated\<close>

lemma phase_to_idx_simps:
  "phase_to_idx ''Shop'' = Some 0" "phase_to_idx ''ShopPackSelection'' = Some 1"
  "phase_to_idx ''BlindSelect'' = Some 2" "phase_to_idx ''Playing'' = Some 3"
  "phase_to_idx ''RoundEnd'' = Some 4" "phase_to_idx ''GameOver'' = Some 5"
  by (simp_all add: phase_to_idx_def phases_def enumerate_eq_zip)

lemma demo_env1_eq:
  "demo_env1 = \<lparr> seed = 12345, deck_type_str = ''Red'', stake_level_str = ''White'',
       max_episode_steps = 1000, quiet = True,
       initial_score = 0, initial_money = 0, current_score = 0, current_money = 0,
       step_count = 0, blind_started = False, blind_finished = False,
       prev_phase = Some ''BlindSelect'',
       previous_score = 0, previous_money = 0, last_valid_actions = [1, 4],
       blind_score_at_start = None, blind_money_at_start = None \<rparr>"
  by (simp add: demo_env1_def demo_env0_def demo_probe_def init_def reset_def reset_engine_def
        extract_observation_def get_game_info_def phase_idx_of_def
        phase_to_idx_simps calculate_reward_def float_evals Let_def)

lemma demo_env2_eq:
  "demo_env2 = \<lparr> seed = 12345, deck_type_str = ''Red'', stake_level_str = ''White'',
       max_episode_steps = 1000, quiet = True,
       initial_score = 0, initial_money = 0, current_score = 0, current_money = 0,
       step_count = 1, blind_started = True, blind_finished = False,
       prev_phase = Some ''Playing'',
       previous_score = 0, previous_money = 0, last_valid_actions = [0, 2],
       blind_score_at_start = Some 0, blind_money_at_start = Some 4 \<rparr>"
  by (simp add: demo_env2_def demo_env1_eq demo_playing_def step_def resolve_action_def
        update_tracking_def try_get_score_money_def extract_observation_def get_game_info_def phase_idx_of_def
        phase_to_idx_simps calculate_reward_def float_evals Let_def)

lemma demo_env3_eq:
  "demo_env3 = \<lparr> seed = 12345, deck_type_str = ''Red'', stake_level_str = ''White'',
       max_episode_steps = 1000, quiet = True,
       initial_score = 0, initial_money = 0, current_score = 120, current_money = 0,
       step_count = 2, blind_started = True, blind_finished = False,
       prev_phase = Some ''Playing'',
       previous_score = 120, previous_money = 0, last_valid_actions = [0, 2],
       blind_score_at_start = Some 0, blind_money_at_start = Some 4 \<rparr>"
  by (simp add: demo_env3_def demo_env2_eq demo_playing_on_def step_def resolve_action_def
        update_tracking_def refresh_current_def try_get_score_money_def
        extract_observation_def get_game_info_def phase_idx_of_def
        phase_to_idx_simps calculate_reward_def float_evals Let_def)

lemma demo_env4_eq:
  "demo_env4 = \<lparr> seed = 12345, deck_type_str = ''Red'', stake_level_str = ''White'',
       max_episode_steps = 1000, quiet = True,
       initial_score = 0, initial_money = 0, current_score = 300, current_money = 3,
       step_count = 3, blind_started = True, blind_finished = True,
       prev_phase = Some ''RoundEnd'',
       previous_score = 300, previous_money = 3, last_valid_actions = [1],
       blind_score_at_start = Some 0, blind_money_at_start = Some 4 \<rparr>"
  by (simp add: demo_env4_def demo_env3_eq demo_round_end_def step_def resolve_action_def
        update_tracking_def refresh_current_def try_get_score_money_def
        extract_observation_def get_game_info_def phase_idx_of_def
        phase_to_idx_simps calculate_reward_def float_evals Let_def)

lemma demo_env2'_eq:
  "demo_env2' = \<lparr> seed = 12345, deck_type_str = ''Red'', stake_level_str = ''White'',
       max_episode_steps = 1000, quiet = True,
       initial_score = 0, initial_money = 0, current_score = 0, current_money = 0,
       step_count = 1, blind_started = True, blind_finished = False,
       prev_phase = Some ''Playing'',
       previous_score = 0, previous_money = 0, last_valid_actions = [],
       blind_score_at_start = Some 0, blind_money_at_start = Some 4 \<rparr>"
  by (simp add: demo_env2'_def demo_env1_eq demo_progressed_def step_def resolve_action_def
        update_tracking_def try_get_score_money_def extract_observation_def get_game_info_def phase_idx_of_def
        phase_to_idx_simps calculate_reward_def float_evals Let_def)

lemma demo_step1_returns:
  "\<exists>obs reward terminated truncated info.
     step demo_env1 1 demo_playing = (demo_env2, Inr (obs, reward, terminated, truncated, info))"
proof -
  have "\<not> isl (snd (step demo_env1 1 demo_playing))"
    by (simp add: demo_env1_eq demo_playing_def step_def resolve_action_def
          update_tracking_def try_get_score_money_def extract_observation_def get_game_info_def phase_idx_of_def
        phase_to_idx_simps calculate_reward_def float_evals Let_def)
  from step_shape[OF this] show ?thesis by (simp add: demo_env2_def)
qed

lemma demo_step2_returns:
  "\<exists>obs reward terminated truncated info.
     step demo_env2 2 demo_playing_on =
       (demo_env3, Inr (obs, reward, terminated, truncated, info))"
proof -
  have "\<not> isl (snd (step demo_env2 2 demo_playing_on))"
    by (simp add: demo_env2_eq demo_playing_on_def step_def resolve_action_def
          update_tracking_def refresh_current_def try_get_score_money_def
          extract_observation_def get_game_info_def phase_idx_of_def
        phase_to_idx_simps calculate_reward_def float_evals Let_def)
  from step_shape[OF this] show ?thesis by (simp add: demo_env3_def)
qed

lemma demo_step3_returns:
  "\<exists>obs reward terminated truncated info.
     step demo_env3 999 demo_round_end =
       (demo_env4, Inr (obs, reward, terminated, truncated, info))"
proof -
  have "\<not> isl (snd (step demo_env3 999 demo_round_end))"
    by (simp add: demo_env3_eq demo_round_end_def step_def resolve_action_def
          update_tracking_def refresh_current_def try_get_score_money_def
          extract_observation_def get_game_info_def phase_idx_of_def
        phase_to_idx_simps calculate_reward_def float_evals Let_def)
  from step_shape[OF this] show ?thesis by (simp add: demo_env4_def)
qed

lemma demo_env5_eq:
  "demo_env5 = \<lparr> seed = 12345, deck_type_str = ''Red'', stake_level_str = ''White'',
       max_episode_steps = 1000, quiet = True,
       initial_score = 0, initial_money = 0, current_score = 300, current_money = 3,
       step_count = 4, blind_started = True, blind_finished = True,
       prev_phase = Some ''Shop'',
       previous_score = 300, previous_money = 3, last_valid_actions = [1],
       blind_score_at_start = Some 0, blind_money_at_start = Some 4 \<rparr>"
  by (simp add: demo_env5_def demo_env4_eq demo_shop_def step_def resolve_action_def
        update_tracking_def extract_observation_def get_game_info_def phase_idx_of_def
        phase_to_idx_simps calculate_reward_def float_evals Let_def)

lemma demo_env6_eq:
  "demo_env6 = \<lparr> seed = 12345, deck_type_str = ''Red'', stake_level_str = ''White'',
       max_episode_steps = 1000, quiet = True,
       initial_score = 0, initial_money = 0, current_score = 300, current_money = 3,
       step_count = 5, blind_started = False, blind_finished = False,
       prev_phase = Some ''BlindSelect'',
       previous_score = 300, previous_money = 3, last_valid_actions = [1],
       blind_score_at_start = Some 0, blind_money_at_start = Some 4 \<rparr>"
  by (simp add: demo_env6_def demo_env5_eq demo_next_blind_def step_def resolve_action_def
        update_tracking_def extract_observation_def get_game_info_def phase_idx_of_def
        phase_to_idx_simps calculate_reward_def float_evals Let_def)

lemma demo_step4_returns:
  "\<exists>obs reward terminated truncated info.
     step demo_env4 1 demo_shop = (demo_env5, Inr (obs, reward, terminated, truncated, info))"
proof -
  have "\<not> isl (snd (step demo_env4 1 demo_shop))"
    by (simp add: demo_env4_eq demo_shop_def step_def resolve_action_def
          update_tracking_def extract_observation_def get_game_info_def phase_idx_of_def
        phase_to_idx_simps calculate_reward_def float_evals Let_def)
  from step_shape[OF this] show ?thesis by (simp add: demo_env5_def)
qed

lemma demo_step5_returns:
  "\<exists>obs reward terminated truncated info.
     step demo_env5 1 demo_next_blind =
       (demo_env6, Inr (obs, reward, terminated, truncated, info))"
proof -
  have "\<not> isl (snd (step demo_env5 1 demo_next_blind))"
    by (simp add: demo_env5_eq demo_next_blind_def step_def resolve_action_def
          update_tracking_def extract_observation_def get_game_info_def phase_idx_of_def
        phase_to_idx_simps calculate_reward_def float_evals Let_def)
  from step_shape[OF this] show ?thesis by (simp add: demo_env6_def)
qed

section \<open>Reward shaping\<close>

text \<open>What \<^verbatim>\<open>_calculate_reward\<close> returns, in the order of its additions.\<close>

lemma calculate_reward_returns:
  assumes "calculate_reward e sr = Inr r"
  shows "double_range (max 0 (current_score e - previous_score e))"
    and "double_range (max 0 (current_money e - previous_money e))"
    and "r = (if bonus_due e sr
              then dadd (dadd (dadd (fl64 (max 0 (current_score e - previous_score e)))
                                    (dmul (fl64 (max 0 (current_money e - previous_money e)))
                                          (Finite 250)))
                              STEP_REWARD)
                        BLIND_COMPLETION_BASE_REWARD
              else dadd (dadd (fl64 (max 0 (current_score e - previous_score e)))
                              (dmul (fl64 (max 0 (current_money e - previous_money e)))
                                    (Finite 250)))
                        STEP_REWARD)"
  using assms
  by (auto simp: calculate_reward_def to_double_def Let_def split: if_splits)

lemma resolve_action_penalty:
  "snd (resolve_action action valid) =
     (if action \<in> set valid then Finite 0
      else if valid \<noteq> [] then Finite (- 10) else Finite (- (1 / 2)))"
  by (simp add: resolve_action_def)

text \<open>The reward of a returning step: the sum the source takes, with the bonus written
  as a summand that is zero when it is not due, which changes no float.\<close>

lemma step_reward_value:
  assumes "step e action (StepReturns sr snap) =
             (e', Inr (obs, reward, terminated, truncated, info))"
  shows "reward =
           dadd (dadd (dadd (dadd (fl64 (max 0 (current_score e' - previous_score e)))
                                  (dmul (Finite 250)
                                        (fl64 (max 0 (current_money e' - previous_money e)))))
                            (fl64 (- (1 / 100))))
                      (if phase sr = Some ''RoundEnd'' \<and> blind_started e' \<and> blind_finished e'
                       then Finite 1000 else Finite 0))
                (snd (resolve_action action (last_valid_actions e)))
       \<and> double_range (max 0 (current_score e' - previous_score e))
       \<and> double_range (max 0 (current_money e' - previous_money e))
       \<and> previous_score e' = current_score e'
       \<and> previous_money e' = current_money e'
       \<and> ieee_nonneg (dadd (fl64 (max 0 (current_score e' - previous_score e)))
                            (dmul (Finite 250)
                                  (fl64 (max 0 (current_money e' - previous_money e)))))"
proof -
  from assms obtain e2 r where
    tr: "update_tracking (e\<lparr>step_count := step_count e + 1\<rparr>) sr snap = (e2, None)" and
    e': "e' = e2\<lparr>prev_phase := phase sr, last_valid_actions := map fst (actions sr),
             previous_score := current_score e2, previous_money := current_money e2\<rparr>" and
    cr: "calculate_reward (e2\<lparr>prev_phase := phase sr,
                 last_valid_actions := map fst (actions sr)\<rparr>) sr = Inr r" and
    rw: "reward = dadd r (snd (resolve_action action (last_valid_actions e)))"
    by (elim step_returnsE) auto
  from update_tracking_frame[OF tr]
  have prev: "previous_score e2 = previous_score e" "previous_money e2 = previous_money e"
    by simp_all
  have cur: "current_score e' = current_score e2" "current_money e' = current_money e2"
    "blind_started e' = blind_started e2" "blind_finished e' = blind_finished e2"
    "previous_score e' = current_score e2" "previous_money e' = current_money e2"
    by (simp_all add: e')
  define s where "s = max 0 (current_score e' - previous_score e)"
  define m where "m = max 0 (current_money e' - previous_money e)"
  define total where "total = dadd (dadd (fl64 s) (dmul (Finite 250) (fl64 m))) (fl64 (- (1 / 100)))"
  from calculate_reward_returns[OF cr]
  have rs: "double_range s" and rm: "double_range m"
    and r: "r = (if phase sr = Some ''RoundEnd'' \<and> blind_started e' \<and> blind_finished e'
                 then dadd total (Finite 1000) else total)"
    by (simp_all add: s_def m_def total_def cur prev bonus_due_def STEP_REWARD_def
          BLIND_COMPLETION_BASE_REWARD_def dmul_commute[of "Finite 250"])
  have "total = dadd total (Finite 0)"
    unfolding total_def by (rule dadd_zero_right[symmetric])
  with r have r': "r = dadd total
      (if phase sr = Some ''RoundEnd'' \<and> blind_started e' \<and> blind_finished e'
       then Finite 1000 else Finite 0)"
    by simp
  have nn: "ieee_nonneg (dadd (fl64 s) (dmul (Finite 250) (fl64 m)))"
  proof (rule dadd_nonneg)
    show "ieee_nonneg (fl64 s)" by (rule fl64_nonneg) (simp add: s_def)
    have "ieee_nonneg (dmul (fl64 m) (Finite 250))"
      by (rule dmul_250_nonneg[OF _ rm]) (simp add: m_def)
    then show "ieee_nonneg (dmul (Finite 250) (fl64 m))" by (simp only: dmul_commute)
  qed
  have "reward = dadd (dadd total
      (if phase sr = Some ''RoundEnd'' \<and> blind_started e' \<and> blind_finished e'
       then Finite 1000 else Finite 0))
      (snd (resolve_action action (last_valid_actions e)))"
    unfolding rw r' ..
  with rs rm nn show ?thesis
    unfolding total_def s_def m_def by (simp add: cur)
qed

text \<open>
  Claim C2. The reward a step returns is the gain in score, plus 250 times the gain in
  money, minus 0.01, plus the bonus, plus the penalty of the action filter, each
  operation being the one on floats and the sum taken from left to right, as the source
  takes it. The bonus is 1000 exactly when the phase of this step is \<^verbatim>\<open>RoundEnd\<close> and
  both blind flags hold, and zero otherwise. The gains compare the current values after
  the step with the previous values before it, losses count as zero, and a step that
  returns found both gains within the range of a float; so the score and money part is
  never negative; and the step leaves the previous values equal to the current ones.
\<close>

theorem reward_formula:
  assumes "step e action (StepReturns sr snap) =
             (e', Inr (obs, reward, terminated, truncated, info))"
  shows "reward =
           dadd (dadd (dadd (dadd (fl64 (max 0 (current_score e' - previous_score e)))
                                  (dmul (Finite 250)
                                        (fl64 (max 0 (current_money e' - previous_money e)))))
                            (fl64 (- (1 / 100))))
                      (if phase sr = Some ''RoundEnd'' \<and> blind_started e' \<and> blind_finished e'
                       then Finite 1000 else Finite 0))
                (if action \<in> set (last_valid_actions e) then Finite 0
                 else if last_valid_actions e \<noteq> [] then Finite (- 10) else Finite (- (1 / 2)))
       \<and> double_range (max 0 (current_score e' - previous_score e))
       \<and> double_range (max 0 (current_money e' - previous_money e))
       \<and> previous_score e' = current_score e'
       \<and> previous_money e' = current_money e'
       \<and> ieee_nonneg (dadd (fl64 (max 0 (current_score e' - previous_score e)))
                            (dmul (Finite 250)
                                  (fl64 (max 0 (current_money e' - previous_money e)))))"
  using step_reward_value[OF assms] unfolding resolve_action_penalty .

text \<open>The last step of the sample run: 180 points and 3 dollars gained, the bonus, and
  the penalty for the index 999 that was not offered. The reward is the float that
  Python prints as \<^verbatim>\<open>1919.99\<close>.\<close>

theorem reward_formula_witness:
  "(case snd (step demo_env3 999 demo_round_end) of
      Inl err \<Rightarrow> False
    | Inr (obs, reward, terminated, truncated, info) \<Rightarrow>
        reward = Finite (8444205320854569 / 4398046511104))
   \<and> previous_score demo_env4 = 300 \<and> previous_money demo_env4 = 3"
proof -
  from demo_step3_returns obtain obs reward terminated truncated info where
    s: "step demo_env3 999 demo_round_end =
          (demo_env4, Inr (obs, reward, terminated, truncated, info))"
    by blast
  from reward_formula[OF s[unfolded demo_round_end_def]]
  have "reward = dadd (dadd (dadd (dadd (Finite 180) (dmul (Finite 250) (Finite 3)))
                  (fl64 (- (1 / 100)))) (Finite 1000)) (Finite (- 10))"
    and "previous_score demo_env4 = 300" and "previous_money demo_env4 = 3"
    by (simp_all add: demo_env3_eq demo_env4_eq fl64_numeral)
  with s show ?thesis by (simp add: demo_reward_round_end)
qed

section \<open>Termination\<close>

text \<open>
  Claim C4. A step reports \<^verbatim>\<open>terminated\<close> exactly when the engine's status is
  \<^verbatim>\<open>Finished\<close>, or the phase is \<^verbatim>\<open>RoundEnd\<close> while the blind has started, or the step
  counter, already incremented by this step, has reached \<^verbatim>\<open>max_episode_steps\<close>; and
  \<^verbatim>\<open>truncated\<close> is false on every step.
\<close>

theorem termination_equivalence:
  assumes "step e action (StepReturns sr snap) =
             (e', Inr (obs, reward, terminated, truncated, info))"
  shows "(terminated \<longleftrightarrow>
            status sr = ''Finished''
          \<or> (phase sr = Some ''RoundEnd'' \<and> blind_started e')
          \<or> step_count e' \<ge> max_episode_steps e')
       \<and> step_count e' = step_count e + 1
       \<and> max_episode_steps e' = max_episode_steps e
       \<and> truncated = False"
proof -
  from assms obtain e2 where
    tr: "update_tracking (e\<lparr>step_count := step_count e + 1\<rparr>) sr snap = (e2, None)" and
    e': "e' = e2\<lparr>prev_phase := phase sr, last_valid_actions := map fst (actions sr),
             previous_score := current_score e2, previous_money := current_money e2\<rparr>" and
    tm: "terminated = is_done e' sr" and tc: "truncated = False"
    by (elim step_returnsE) auto
  from update_tracking_frame[OF tr]
  have "step_count e' = step_count e + 1" "max_episode_steps e' = max_episode_steps e"
    by (simp_all add: e')
  then show ?thesis
    unfolding tm tc by (simp add: is_done_def)
qed

text \<open>In the sample run the second step goes on and the third one ends the episode.\<close>

theorem termination_equivalence_witness:
  "(case snd (step demo_env2 2 demo_playing_on) of
      Inl err \<Rightarrow> False
    | Inr (obs, reward, terminated, truncated, info) \<Rightarrow> \<not> terminated \<and> \<not> truncated)
   \<and> (case snd (step demo_env3 999 demo_round_end) of
      Inl err \<Rightarrow> False
    | Inr (obs, reward, terminated, truncated, info) \<Rightarrow> terminated \<and> \<not> truncated)"
proof -
  from demo_step2_returns obtain obs reward terminated truncated info where
    s2: "step demo_env2 2 demo_playing_on =
          (demo_env3, Inr (obs, reward, terminated, truncated, info))"
    by blast
  from termination_equivalence[OF s2[unfolded demo_playing_on_def]]
  have a: "\<not> terminated \<and> \<not> truncated"
    by (simp add: demo_env3_eq)
  from demo_step3_returns obtain obs' reward' terminated' truncated' info' where
    s3: "step demo_env3 999 demo_round_end =
          (demo_env4, Inr (obs', reward', terminated', truncated', info'))"
    by blast
  from termination_equivalence[OF s3[unfolded demo_round_end_def]]
  have b: "terminated' \<and> \<not> truncated'"
    by (simp add: demo_env4_eq)
  from a b s2 s3 show ?thesis by simp
qed

section \<open>The phase tracker\<close>

lemma update_tracking_blind_select:
  assumes "phase sr = Some ''BlindSelect''"
  shows "update_tracking e sr snap = (e\<lparr>blind_started := False, blind_finished := False\<rparr>, None)"
  using assms by (simp add: update_tracking_def)

lemma update_tracking_enter_playing:
  assumes "phase sr = Some ''Playing''" "prev_phase e \<noteq> Some ''Playing''"
  shows "update_tracking e sr snap =
           (case try_get_score_money snap of
              (Some score, Some money) \<Rightarrow>
                (e\<lparr>blind_started := True, blind_score_at_start := Some score,
                    blind_money_at_start := Some money\<rparr>, None)
            | _ \<Rightarrow>
                (e\<lparr>blind_started := True, blind_score_at_start := Some (current_score e),
                    blind_money_at_start := Some (current_money e)\<rparr>, None))"
  using assms by (simp add: update_tracking_def Let_def split: prod.splits option.splits)

lemma refresh_current_ok:
  assumes "refresh_current e score money = (e2, None)"
  shows "Some (current_score e2) = map_option (\<lambda>b. score - b) (blind_score_at_start e)
       \<and> Some (current_money e2) = map_option (\<lambda>b. money - b) (blind_money_at_start e)
       \<and> blind_started e2 = blind_started e \<and> blind_finished e2 = blind_finished e"
  using assms by (auto simp: refresh_current_def Let_def split: option.splits)

text \<open>
  Claim C3. On every step that returns, the blind flags change as the transition table
  says. A result in phase \<^verbatim>\<open>BlindSelect\<close> clears both flags. Entering \<^verbatim>\<open>Playing\<close>
  from any other previous phase (the initial \<^verbatim>\<open>None\<close> too) sets \<^verbatim>\<open>blind_started\<close> and
  records the baselines: the engine's absolute score and money when the snapshot gives
  both, the tracked current values otherwise. \<^verbatim>\<open>RoundEnd\<close> while the blind has started
  sets \<^verbatim>\<open>blind_finished\<close>, and \<^verbatim>\<open>Playing\<close> after \<^verbatim>\<open>Playing\<close> while the blind has
  started leaves the flags; both set the current score and money to the absolute values
  minus the baselines when the snapshot gives both, and leave them otherwise. Every other
  pair of phases leaves both flags, and the previous phase becomes the new phase in every
  case.
\<close>

theorem phase_tracker_transitions:
  assumes "step e action (StepReturns sr snap) =
             (e', Inr (obs, reward, terminated, truncated, info))"
  shows "(phase sr = Some ''BlindSelect'' \<longrightarrow> \<not> blind_started e' \<and> \<not> blind_finished e')
       \<and> (phase sr = Some ''Playing'' \<and> prev_phase e \<noteq> Some ''Playing'' \<longrightarrow>
            blind_started e' \<and> blind_finished e' = blind_finished e
          \<and> (blind_score_at_start e', blind_money_at_start e') =
              (case try_get_score_money snap of
                 (Some score, Some money) \<Rightarrow> (Some score, Some money)
               | _ \<Rightarrow> (Some (current_score e), Some (current_money e))))
       \<and> (phase sr = Some ''RoundEnd'' \<and> blind_started e \<longrightarrow>
            blind_started e' \<and> blind_finished e'
          \<and> (case try_get_score_money snap of
                (Some score, Some money) \<Rightarrow>
                    Some (current_score e') = map_option (\<lambda>b. score - b) (blind_score_at_start e)
                  \<and> Some (current_money e') = map_option (\<lambda>b. money - b) (blind_money_at_start e)
              | _ \<Rightarrow> current_score e' = current_score e \<and> current_money e' = current_money e))
       \<and> (phase sr = Some ''Playing'' \<and> prev_phase e = Some ''Playing'' \<and> blind_started e \<longrightarrow>
            blind_started e' \<and> blind_finished e' = blind_finished e
          \<and> (case try_get_score_money snap of
                (Some score, Some money) \<Rightarrow>
                    Some (current_score e') = map_option (\<lambda>b. score - b) (blind_score_at_start e)
                  \<and> Some (current_money e') = map_option (\<lambda>b. money - b) (blind_money_at_start e)
              | _ \<Rightarrow> current_score e' = current_score e \<and> current_money e' = current_money e))
       \<and> (phase sr \<noteq> Some ''BlindSelect''
            \<and> \<not> (phase sr = Some ''Playing'' \<and> prev_phase e \<noteq> Some ''Playing'')
            \<and> \<not> (phase sr = Some ''RoundEnd'' \<and> blind_started e) \<longrightarrow>
            blind_started e' = blind_started e \<and> blind_finished e' = blind_finished e)
       \<and> prev_phase e' = phase sr"
proof -
  let ?e1 = "e\<lparr>step_count := step_count e + 1\<rparr>"
  from assms obtain e2 where
    tr: "update_tracking ?e1 sr snap = (e2, None)" and
    e': "e' = e2\<lparr>prev_phase := phase sr, last_valid_actions := map fst (actions sr),
             previous_score := current_score e2, previous_money := current_money e2\<rparr>"
    by (elim step_returnsE) auto
  have same: "blind_started e' = blind_started e2" "blind_finished e' = blind_finished e2"
    "current_score e' = current_score e2" "current_money e' = current_money e2"
    "blind_score_at_start e' = blind_score_at_start e2"
    "blind_money_at_start e' = blind_money_at_start e2"
    by (simp_all add: e')
  have c1: "\<not> blind_started e2 \<and> \<not> blind_finished e2" if "phase sr = Some ''BlindSelect''"
    using tr update_tracking_blind_select[OF that, of ?e1 snap] by auto
  have c2: "blind_started e2 \<and> blind_finished e2 = blind_finished e
          \<and> (blind_score_at_start e2, blind_money_at_start e2) =
              (case try_get_score_money snap of
                 (Some score, Some money) \<Rightarrow> (Some score, Some money)
               | _ \<Rightarrow> (Some (current_score e), Some (current_money e)))"
    if "phase sr = Some ''Playing''" "prev_phase e \<noteq> Some ''Playing''"
    using tr update_tracking_enter_playing[of sr ?e1 snap] that
    by (auto split: prod.splits option.splits)
  have c3: "blind_started e2 \<and> blind_finished e2
          \<and> (case try_get_score_money snap of
                (Some score, Some money) \<Rightarrow>
                    Some (current_score e2) = map_option (\<lambda>b. score - b) (blind_score_at_start e)
                  \<and> Some (current_money e2) = map_option (\<lambda>b. money - b) (blind_money_at_start e)
              | _ \<Rightarrow> current_score e2 = current_score e \<and> current_money e2 = current_money e)"
    if "phase sr = Some ''RoundEnd''" "blind_started e"
  proof (cases "try_get_score_money snap")
    case (Pair sc mo)
    show ?thesis
    proof (cases "\<exists>score money. sc = Some score \<and> mo = Some money")
      case True
      then obtain score money where sm: "sc = Some score" "mo = Some money" by blast
      with tr that Pair
      have "refresh_current (?e1\<lparr>blind_finished := True\<rparr>) score money = (e2, None)"
        by (simp add: update_tracking_def Let_def)
      from refresh_current_ok[OF this] show ?thesis
        using that by (simp add: Pair sm)
    next
      case False
      with tr that Pair have "e2 = ?e1\<lparr>blind_finished := True\<rparr>"
        by (auto simp: update_tracking_def Let_def split: option.splits)
      with False Pair that show ?thesis by (auto split: option.splits)
    qed
  qed
  have c4: "blind_started e2 \<and> blind_finished e2 = blind_finished e
          \<and> (case try_get_score_money snap of
                (Some score, Some money) \<Rightarrow>
                    Some (current_score e2) = map_option (\<lambda>b. score - b) (blind_score_at_start e)
                  \<and> Some (current_money e2) = map_option (\<lambda>b. money - b) (blind_money_at_start e)
              | _ \<Rightarrow> current_score e2 = current_score e \<and> current_money e2 = current_money e)"
    if "phase sr = Some ''Playing''" "prev_phase e = Some ''Playing''" "blind_started e"
  proof (cases "try_get_score_money snap")
    case (Pair sc mo)
    show ?thesis
    proof (cases "\<exists>score money. sc = Some score \<and> mo = Some money")
      case True
      then obtain score money where sm: "sc = Some score" "mo = Some money" by blast
      with tr that Pair
      have "refresh_current ?e1 score money = (e2, None)"
        by (simp add: update_tracking_def Let_def)
      from refresh_current_ok[OF this] show ?thesis
        using that by (simp add: Pair sm)
    next
      case False
      with tr that Pair have "e2 = ?e1"
        by (auto simp: update_tracking_def Let_def split: option.splits)
      with False Pair that show ?thesis by (auto split: option.splits)
    qed
  qed
  have c5: "blind_started e2 = blind_started e \<and> blind_finished e2 = blind_finished e"
    if "phase sr \<noteq> Some ''BlindSelect''"
       "\<not> (phase sr = Some ''Playing'' \<and> prev_phase e \<noteq> Some ''Playing'')"
       "\<not> (phase sr = Some ''RoundEnd'' \<and> blind_started e)"
    using tr that
    by (auto simp: update_tracking_def refresh_current_def Let_def
             split: if_splits prod.splits option.splits)
  have c6: "prev_phase e' = phase sr" by (simp add: e')
  show ?thesis
    unfolding same
  proof (intro conjI impI)
    show "prev_phase e' = phase sr" by (rule c6)
  qed (use c1 c2 c3 c4 c5 in \<open>simp_all\<close>)
qed


text \<open>The five kinds of transition, each taken once by the sample run.\<close>

theorem phase_tracker_transitions_witness:
  "blind_started demo_env2 \<and> \<not> blind_finished demo_env2
   \<and> blind_score_at_start demo_env2 = Some 0 \<and> blind_money_at_start demo_env2 = Some 4
   \<and> blind_started demo_env3 \<and> current_score demo_env3 = 120
   \<and> blind_finished demo_env4 \<and> current_score demo_env4 = 300 \<and> current_money demo_env4 = 3
   \<and> blind_started demo_env5 \<and> blind_finished demo_env5
   \<and> prev_phase demo_env5 = Some ''Shop''
   \<and> \<not> blind_started demo_env6 \<and> \<not> blind_finished demo_env6"
proof -
  from demo_step1_returns obtain obs1 reward1 terminated1 truncated1 info1 where
    "step demo_env1 1 demo_playing =
       (demo_env2, Inr (obs1, reward1, terminated1, truncated1, info1))"
    by blast
  from phase_tracker_transitions[OF this[unfolded demo_playing_def]]
  have t1: "blind_started demo_env2 \<and> \<not> blind_finished demo_env2
     \<and> blind_score_at_start demo_env2 = Some 0 \<and> blind_money_at_start demo_env2 = Some 4"
    by (simp add: demo_env1_eq try_get_score_money_def)
  from demo_step2_returns obtain obs2 reward2 terminated2 truncated2 info2 where
    "step demo_env2 2 demo_playing_on =
       (demo_env3, Inr (obs2, reward2, terminated2, truncated2, info2))"
    by blast
  from phase_tracker_transitions[OF this[unfolded demo_playing_on_def]]
  have t2: "blind_started demo_env3 \<and> current_score demo_env3 = 120"
    by (simp add: demo_env2_eq try_get_score_money_def)
  from demo_step3_returns obtain obs3 reward3 terminated3 truncated3 info3 where
    "step demo_env3 999 demo_round_end =
       (demo_env4, Inr (obs3, reward3, terminated3, truncated3, info3))"
    by blast
  from phase_tracker_transitions[OF this[unfolded demo_round_end_def]]
  have t3: "blind_finished demo_env4 \<and> current_score demo_env4 = 300
     \<and> current_money demo_env4 = 3"
    by (simp add: demo_env3_eq try_get_score_money_def)
  from demo_step4_returns obtain obs4 reward4 terminated4 truncated4 info4 where
    "step demo_env4 1 demo_shop =
       (demo_env5, Inr (obs4, reward4, terminated4, truncated4, info4))"
    by blast
  from phase_tracker_transitions[OF this[unfolded demo_shop_def]]
  have t4: "blind_started demo_env5 \<and> blind_finished demo_env5
     \<and> prev_phase demo_env5 = Some ''Shop''"
    by (simp add: demo_env4_eq)
  from demo_step5_returns obtain obs5 reward5 terminated5 truncated5 info5 where
    "step demo_env5 1 demo_next_blind =
       (demo_env6, Inr (obs5, reward5, terminated5, truncated5, info5))"
    by blast
  from phase_tracker_transitions[OF this[unfolded demo_next_blind_def]]
  have t5: "\<not> blind_started demo_env6 \<and> \<not> blind_finished demo_env6"
    by simp
  from t1 t2 t3 t4 t5 show ?thesis by simp
qed

section \<open>The action filter\<close>

text \<open>The three branches of the filter.\<close>

lemma resolve_action_branches:
  "(action \<in> set valid \<longrightarrow> resolve_action action valid = (action, Finite 0))
   \<and> (action \<notin> set valid \<and> valid \<noteq> []
        \<longrightarrow> resolve_action action valid = (valid ! 0, Finite (- 10)))
   \<and> (valid = [] \<longrightarrow> resolve_action action valid = (0, Finite (- (1 / 2))))"
  by (simp add: resolve_action_def)

text \<open>The flag \<^verbatim>\<open>action_mapped\<close> is computed as \<^verbatim>\<open>action != mapped_action\<close>. It is set
  in the remap branches except when the list is empty and the requested action is the
  fallback \<open>0\<close> itself.\<close>

lemma action_mapped_flag:
  "action \<noteq> fst (resolve_action action valid)
     \<longleftrightarrow> action \<notin> set valid \<and> (valid = [] \<longrightarrow> action \<noteq> 0)"
proof (cases "action \<in> set valid")
  case True
  then show ?thesis by (simp add: resolve_action_def)
next
  case False
  show ?thesis
  proof (cases valid)
    case Nil
    then show ?thesis by (auto simp: resolve_action_def)
  next
    case (Cons a rest)
    with False have "action \<noteq> a" by auto
    with False Cons show ?thesis by (simp add: resolve_action_def)
  qed
qed

text \<open>
  Claim C1, where the code departs from it. After a step whose result offered no action
  the cached list is empty; the request \<open>0\<close> then takes the fallback branch and pays the
  penalty of one half, yet the returned flag \<^verbatim>\<open>action_mapped\<close> is false. The reward,
  120 points less the step cost and the penalty, is the float that Python prints as
  \<^verbatim>\<open>119.49\<close>.
\<close>

theorem empty_list_request_zero:
  "last_valid_actions demo_env2' = []
   \<and> (case snd (step demo_env2' 0 demo_playing_on) of
        Inl err \<Rightarrow> False
      | Inr (obs, reward, terminated, truncated, info) \<Rightarrow>
          map_of info ''action_mapped'' = Some (VBool False)
        \<and> map_of info ''original_action'' = Some (VInt 0)
        \<and> map_of info ''mapped_action'' = Some (VInt 0)
        \<and> reward = Finite (8408361241789071 / 70368744177664))"
  by (simp add: demo_env2'_eq demo_playing_on_def step_def resolve_action_def
        update_tracking_def refresh_current_def try_get_score_money_def
        extract_observation_def get_game_info_def phase_idx_of_def phase_to_idx_simps
        calculate_reward_def bonus_due_def float_evals demo_reward_fallback Let_def)

section \<open>Reset\<close>

lemma reset_returnsE:
  assumes "reset e sd setup probe = (e', Inr (obs, info))"
  obtains sr snap where
    "setup = SetupReturns" "probe = StepReturns sr snap"
    "e' = (case sd of Some s \<Rightarrow> e\<lparr>seed := s\<rparr> | None \<Rightarrow> e)
            \<lparr> initial_score := 0, initial_money := 0, current_score := 0,
              current_money := 0, step_count := 0, previous_score := 0,
              previous_money := 0, prev_phase := phase sr,
              last_valid_actions := map fst (actions sr) \<rparr>"
    "info = [ (''phase'', VOptStr (phase sr)), (''status'', VStr (status sr)),
              (''valid_actions'', VIntList (map fst (actions sr))) ]"
  using assms
  by (auto simp: reset_def reset_engine_def Let_def
           split: setup_reply.splits engine_reply.splits sum.splits option.splits)

text \<open>What a returning \<^verbatim>\<open>reset\<close> restores, and what it leaves: the two blind flags
  and the baselines keep the values of the episode before.\<close>

lemma reset_tracked_state:
  assumes "reset e sd setup (StepReturns sr snap) = (e', Inr (obs, info))"
  shows "current_score e' = 0 \<and> current_money e' = 0 \<and> previous_score e' = 0
       \<and> previous_money e' = 0 \<and> step_count e' = 0
       \<and> last_valid_actions e' = map fst (actions sr) \<and> prev_phase e' = phase sr
       \<and> blind_started e' = blind_started e \<and> blind_finished e' = blind_finished e"
  using assms by (elim reset_returnsE) (auto split: option.splits)

text \<open>
  Claim C5, where the code departs from it. The sample episode ends with both blind flags
  set. The \<^verbatim>\<open>reset\<close> that follows zeroes the scores and the step counter but leaves both
  flags set, and the observation it returns shows them as 1, whereas a freshly constructed
  environment has them cleared.
\<close>

theorem reset_after_finished_blind:
  "blind_started demo_env4 \<and> blind_finished demo_env4
   \<and> (case reset demo_env4 None SetupReturns demo_probe of
        (e', Inl err) \<Rightarrow> False
      | (e', Inr (obs, info)) \<Rightarrow>
          blind_started e' \<and> blind_finished e'
        \<and> game_info obs ! 6 = Finite 1 \<and> game_info obs ! 7 = Finite 1
        \<and> current_score e' = 0 \<and> step_count e' = 0
        \<and> prev_phase e' = Some ''BlindSelect'')
   \<and> \<not> blind_started (init 12345 ''Red'' ''White'' 1000 True)
   \<and> \<not> blind_finished (init 12345 ''Red'' ''White'' 1000 True)"
  by (simp add: demo_env4_eq demo_probe_def reset_def reset_engine_def init_def
        extract_observation_def get_game_info_def phase_idx_of_def phase_to_idx_simps
        float_evals Let_def)

section \<open>The info dictionary\<close>

text \<open>
  Claim C9 as stated fails for \<^verbatim>\<open>reset\<close>: the info it returns has the three keys
  \<^verbatim>\<open>phase\<close>, \<^verbatim>\<open>status\<close> and \<^verbatim>\<open>valid_actions\<close> and none of the other six.
\<close>

theorem reset_info_lacks_fields:
  "(case snd (reset demo_env0 None SetupReturns demo_probe) of
      Inl err \<Rightarrow> False
    | Inr (obs, info) \<Rightarrow>
        map_of info ''score'' = None \<and> map_of info ''money'' = None
      \<and> map_of info ''action_mapped'' = None \<and> map_of info ''original_action'' = None
      \<and> map_of info ''mapped_action'' = None \<and> map_of info ''finished'' = None)"
  by (simp add: demo_env0_def demo_probe_def reset_def reset_engine_def init_def
        extract_observation_def get_game_info_def phase_idx_of_def phase_to_idx_simps
        float_evals Let_def)

text \<open>
  Claim C9, amended. The info of every returning \<^verbatim>\<open>step\<close> has the nine fields, in this
  order, and the info of every returning \<^verbatim>\<open>reset\<close> has exactly \<^verbatim>\<open>phase\<close>, \<^verbatim>\<open>status\<close>
  and \<^verbatim>\<open>valid_actions\<close>; in both, \<^verbatim>\<open>valid_actions\<close> is the list of the action indices
  of the step result just received, which is also the list cached for the next step.
\<close>

theorem info_fields:
  "(step e action (StepReturns sr snap) = (e', Inr (obs, reward, terminated, truncated, info))
      \<longrightarrow> map fst info = [''phase'', ''status'', ''score'', ''money'', ''action_mapped'',
                            ''original_action'', ''mapped_action'', ''valid_actions'',
                            ''finished'']
        \<and> map_of info ''phase'' = Some (VOptStr (phase sr))
        \<and> map_of info ''status'' = Some (VStr (status sr))
        \<and> map_of info ''score'' = Some (VNum (current_score e'))
        \<and> map_of info ''money'' = Some (VNum (current_money e'))
        \<and> map_of info ''original_action'' = Some (VInt action)
        \<and> map_of info ''valid_actions'' = Some (VIntList (map fst (actions sr)))
        \<and> map_of info ''finished'' = Some (VOptStr (finished sr))
        \<and> (\<exists>b m. map_of info ''action_mapped'' = Some (VBool b)
                 \<and> map_of info ''mapped_action'' = Some (VInt m))
        \<and> last_valid_actions e' = map fst (actions sr))
   \<and> (reset e0 sd setup (StepReturns sr0 snap0) = (e0', Inr (obs0, info0))
      \<longrightarrow> map fst info0 = [''phase'', ''status'', ''valid_actions'']
        \<and> map_of info0 ''phase'' = Some (VOptStr (phase sr0))
        \<and> map_of info0 ''status'' = Some (VStr (status sr0))
        \<and> map_of info0 ''valid_actions'' = Some (VIntList (map fst (actions sr0)))
        \<and> last_valid_actions e0' = map fst (actions sr0))"
proof (intro conjI impI)
  assume s: "step e action (StepReturns sr snap) =
               (e', Inr (obs, reward, terminated, truncated, info))"
  then obtain e2 where
    i: "info = [ (''phase'', VOptStr (phase sr)),
              (''status'', VStr (status sr)),
              (''score'', VNum (current_score e')),
              (''money'', VNum (current_money e')),
              (''action_mapped'',
                 VBool (action \<noteq> fst (resolve_action action (last_valid_actions e)))),
              (''original_action'', VInt action),
              (''mapped_action'', VInt (fst (resolve_action action (last_valid_actions e)))),
              (''valid_actions'', VIntList (map fst (actions sr))),
              (''finished'', VOptStr (finished sr)) ]" and
    e': "e' = e2\<lparr>prev_phase := phase sr, last_valid_actions := map fst (actions sr),
             previous_score := current_score e2, previous_money := current_money e2\<rparr>"
    by (elim step_returnsE) auto
  show "map fst info = [''phase'', ''status'', ''score'', ''money'', ''action_mapped'',
                        ''original_action'', ''mapped_action'', ''valid_actions'',
                        ''finished'']"
    by (simp add: i)
  show "map_of info ''phase'' = Some (VOptStr (phase sr))" by (simp add: i)
  show "map_of info ''status'' = Some (VStr (status sr))" by (simp add: i)
  show "map_of info ''score'' = Some (VNum (current_score e'))" by (simp add: i)
  show "map_of info ''money'' = Some (VNum (current_money e'))" by (simp add: i)
  show "map_of info ''original_action'' = Some (VInt action)" by (simp add: i)
  show "map_of info ''valid_actions'' = Some (VIntList (map fst (actions sr)))"
    by (simp add: i)
  show "map_of info ''finished'' = Some (VOptStr (finished sr))" by (simp add: i)
  show "\<exists>b m. map_of info ''action_mapped'' = Some (VBool b)
             \<and> map_of info ''mapped_action'' = Some (VInt m)"
    by (simp add: i)
  show "last_valid_actions e' = map fst (actions sr)" by (simp add: e')
next
  assume r: "reset e0 sd setup (StepReturns sr0 snap0) = (e0', Inr (obs0, info0))"
  then have i: "info0 = [ (''phase'', VOptStr (phase sr0)), (''status'', VStr (status sr0)),
              (''valid_actions'', VIntList (map fst (actions sr0))) ]"
    by (elim reset_returnsE) auto
  show "map fst info0 = [''phase'', ''status'', ''valid_actions'']" by (simp add: i)
  show "map_of info0 ''phase'' = Some (VOptStr (phase sr0))" by (simp add: i)
  show "map_of info0 ''status'' = Some (VStr (status sr0))" by (simp add: i)
  show "map_of info0 ''valid_actions'' = Some (VIntList (map fst (actions sr0)))"
    by (simp add: i)
  from reset_tracked_state[OF r]
  show "last_valid_actions e0' = map fst (actions sr0)" by simp
qed

lemma demo_reset_returns:
  "\<exists>obs info. reset demo_env0 None SetupReturns demo_probe = (demo_env1, Inr (obs, info))"
proof -
  have "\<not> isl (snd (reset demo_env0 None SetupReturns demo_probe))"
    by (simp add: demo_env0_def demo_probe_def reset_def reset_engine_def init_def
        extract_observation_def get_game_info_def phase_idx_of_def phase_to_idx_simps
        float_evals Let_def)
  then obtain ret where "snd (reset demo_env0 None SetupReturns demo_probe) = Inr ret"
    by (cases "snd (reset demo_env0 None SetupReturns demo_probe)") auto
  then have "reset demo_env0 None SetupReturns demo_probe = (demo_env1, Inr (fst ret, snd ret))"
    by (simp add: demo_env1_def prod_eq_iff)
  then show ?thesis by blast
qed

text \<open>The info of the first step of the sample run and of the reset before it.\<close>

theorem info_fields_witness:
  "(case snd (step demo_env1 1 demo_playing) of
      Inl err \<Rightarrow> False
    | Inr (obs, reward, terminated, truncated, info) \<Rightarrow>
        map fst info = [''phase'', ''status'', ''score'', ''money'', ''action_mapped'',
                        ''original_action'', ''mapped_action'', ''valid_actions'',
                        ''finished'']
      \<and> map_of info ''valid_actions'' = Some (VIntList [0, 2]))
   \<and> (case snd (reset demo_env0 None SetupReturns demo_probe) of
      Inl err \<Rightarrow> False
    | Inr (obs, info) \<Rightarrow>
        map fst info = [''phase'', ''status'', ''valid_actions'']
      \<and> map_of info ''valid_actions'' = Some (VIntList [1, 4]))"
proof -
  from demo_step1_returns obtain obs reward terminated truncated info where
    s: "step demo_env1 1 demo_playing =
          (demo_env2, Inr (obs, reward, terminated, truncated, info))"
    by blast
  from demo_reset_returns obtain obs0 info0 where
    r: "reset demo_env0 None SetupReturns demo_probe = (demo_env1, Inr (obs0, info0))"
    by blast
  from info_fields[of demo_env1 1 _ _ demo_env2 obs reward terminated truncated info
                      demo_env0 None SetupReturns _ _ demo_env1 obs0 info0]
       s[unfolded demo_playing_def] r[unfolded demo_probe_def]
  have "map fst info = [''phase'', ''status'', ''score'', ''money'', ''action_mapped'',
                        ''original_action'', ''mapped_action'', ''valid_actions'',
                        ''finished'']
      \<and> map_of info ''valid_actions'' = Some (VIntList [0, 2])
      \<and> map fst info0 = [''phase'', ''status'', ''valid_actions'']
      \<and> map_of info0 ''valid_actions'' = Some (VIntList [1, 4])"
    by simp
  with s r show ?thesis by simp
qed

section \<open>The observation encoder\<close>

text \<open>The engine numbers the legal actions by their position in its list, so the indices
  of a step result are not negative. The loop over them then raises nothing and sets
  exactly the positions that occur in the list and lie below 100.\<close>

lemma fill_mask_nonneg:
  assumes "length m = 100" and "\<forall>i \<in> set idxs. 0 \<le> i"
  shows "\<exists>m'. fill_mask m idxs = Inr m' \<and> length m' = 100
           \<and> (\<forall>k<100. m' ! k = (if int k \<in> set idxs then 1 else m ! k))"
  using assms
proof (induction idxs arbitrary: m)
  case Nil
  then show ?case by simp
next
  case (Cons a rest)
  show ?case
  proof (cases "a < 100")
    case True
    with Cons.prems have a: "0 \<le> a" "a < int (length m)" by simp_all
    from Cons.prems have "length (m[nat a := 1]) = 100" "\<forall>i \<in> set rest. 0 \<le> i" by simp_all
    from Cons.IH[OF this] obtain m' where
      m': "fill_mask (m[nat a := 1]) rest = Inr m'" "length m' = 100"
          "\<forall>k<100. m' ! k = (if int k \<in> set rest then 1 else m[nat a := 1] ! k)"
      by blast
    have "m' ! k = (if int k \<in> set (a # rest) then 1 else m ! k)" if "k < 100" for k
    proof (cases "int k = a")
      case True
      then have "k = nat a" by simp
      with m'(3) that Cons.prems(1) True show ?thesis by simp
    next
      case False
      then have "k \<noteq> nat a" using a by auto
      with m'(3) that False show ?thesis by simp
    qed
    with m' True a show ?thesis by (simp add: Let_def)
  next
    case False
    from Cons.prems have "length m = 100" "\<forall>i \<in> set rest. 0 \<le> i" by simp_all
    from Cons.IH[OF this] obtain m' where
      m': "fill_mask m rest = Inr m'" "length m' = 100"
          "\<forall>k<100. m' ! k = (if int k \<in> set rest then 1 else m ! k)"
      by blast
    have "int k \<noteq> a" if "k < 100" for k using that False by simp
    with m' False show ?thesis by simp
  qed
qed

text \<open>The phase index is one of the six positions of the phase list.\<close>

lemma phase_to_idx_bound:
  assumes "phase_to_idx s = Some i"
  shows "i < 6"
  using assms
  by (auto simp: phase_to_idx_def phases_def enumerate_eq_zip split: if_splits)

lemma phase_idx_of_bound: "phase_idx_of p < 6"
  by (auto simp: phase_idx_of_def phase_to_idx_bound split: option.splits)

text \<open>The array of the ten numbers: the score, the money and the step counter are
  narrowed to \<^verbatim>\<open>float32\<close>, which the constants, the flags and the phase index are
  already.\<close>

lemma np_float32_phase_idx:
  assumes "k < 6"
  shows "np_float32 (real k) = Inr (Finite (real k))"
  using np_float32_of_int[of "int k"] assms by simp

lemma np_float32_flag:
  "np_float32 (if b then 1 else 0) = Inr (Finite (if b then 1 else 0))"
  by (simp add: np_float32_small)

lemma game_info_array:
  assumes "double_range (current_score e)" "double_range (current_money e)"
    and "double_range (real_of_int (step_count e))"
  shows "np_array_float32
           [ the (((get_game_info e)(''phase_idx'' \<mapsto> real (phase_idx_of p))) ''score''),
             the (((get_game_info e)(''phase_idx'' \<mapsto> real (phase_idx_of p))) ''money''),
             the (((get_game_info e)(''phase_idx'' \<mapsto> real (phase_idx_of p))) ''ante''),
             the (((get_game_info e)(''phase_idx'' \<mapsto> real (phase_idx_of p))) ''round''),
             the (((get_game_info e)(''phase_idx'' \<mapsto> real (phase_idx_of p)))
                    ''hands_remaining''),
             the (((get_game_info e)(''phase_idx'' \<mapsto> real (phase_idx_of p)))
                    ''discards_remaining''),
             the (((get_game_info e)(''phase_idx'' \<mapsto> real (phase_idx_of p)))
                    ''blind_started''),
             the (((get_game_info e)(''phase_idx'' \<mapsto> real (phase_idx_of p)))
                    ''blind_finished''),
             the (((get_game_info e)(''phase_idx'' \<mapsto> real (phase_idx_of p)))
                    ''step_count''),
             real (phase_idx_of p) ]
         = Inr [ to_float32 (fl64 (current_score e)), to_float32 (fl64 (current_money e)),
                 Finite 1, Finite 1, Finite 4, Finite 3,
                 Finite (if blind_started e then 1 else 0),
                 Finite (if blind_finished e then 1 else 0),
                 to_float32 (fl64 (real_of_int (step_count e))),
                 Finite (real (phase_idx_of p)) ]"
  using assms
  by (simp add: get_game_info_def np_float32_in_range np_float32_small np_float32_flag
        np_float32_phase_idx[OF phase_idx_of_bound])

text \<open>A score that is not a \<^verbatim>\<open>float32\<close> value is rounded to one.\<close>

lemma float32_high_score: "to_float32 (fl64 16777217) = Finite 16777216"
proof -
  have "fl64 16777217 = Finite 16777217"
    using fl64_of_int[of 16777217] by simp
  moreover have "fl32 16777217 = Finite 16777216"
    using round_ieee_eval[of 24 16777217 "- 126" 24 8388608 127]
    by (simp add: fl32_def round_half_even_def)
  ultimately show ?thesis by (simp add: to_float32_def)
qed

text \<open>
  Claim C6. For every tracked state whose score, money and step counter lie in the range
  of a float, and every step result of the engine, whose action indices are positions and
  so not negative, in whatever phase, the encoder returns an observation whose mask has
  length 100 and holds 1 at position \<open>i\<close> exactly when \<open>i\<close> occurs in the legal-action
  list (indices from 100 on are dropped), and whose info vector has the ten entries score,
  money, 1, 1, 4, 3, the two blind flags, the step counter and the phase index, in this
  order, each as the \<^verbatim>\<open>float32\<close> value the array holds.
\<close>

theorem observation_encoding:
  assumes "\<forall>i \<in> fst ` set (actions sr). 0 \<le> i"
    and "double_range (current_score e)" and "double_range (current_money e)"
    and "double_range (real_of_int (step_count e))"
  shows "\<exists>obs. extract_observation e sr = Inr obs
           \<and> length (available_actions obs) = 100
           \<and> (\<forall>i<100. available_actions obs ! i =
                  (if int i \<in> fst ` set (actions sr) then 1 else 0))
           \<and> game_info obs =
               [ to_float32 (fl64 (current_score e)), to_float32 (fl64 (current_money e)),
                 Finite 1, Finite 1, Finite 4, Finite 3,
                 Finite (if blind_started e then 1 else 0),
                 Finite (if blind_finished e then 1 else 0),
                 to_float32 (fl64 (real_of_int (step_count e))),
                 Finite (real (phase_idx_of (phase sr))) ]
           \<and> obs_phase obs = [phase_idx_of (phase sr)]"
proof -
  from assms(1) have "\<forall>i \<in> set (map fst (actions sr)). 0 \<le> i" by simp
  from fill_mask_nonneg[OF _ this, of "replicate 100 0"] obtain m where
    m: "fill_mask (replicate 100 0) (map fst (actions sr)) = Inr m" "length m = 100"
       "\<forall>k<100. m ! k = (if int k \<in> set (map fst (actions sr)) then 1 else replicate 100 0 ! k)"
    by auto
  from m(3) have m3: "\<forall>i<100. m ! i = (if int i \<in> fst ` set (actions sr) then 1 else 0)"
    by simp
  have "extract_observation e sr =
          Inr \<lparr> obs_phase = [phase_idx_of (phase sr)], available_actions = m,
                game_info =
                  [ to_float32 (fl64 (current_score e)), to_float32 (fl64 (current_money e)),
                    Finite 1, Finite 1, Finite 4, Finite 3,
                    Finite (if blind_started e then 1 else 0),
                    Finite (if blind_finished e then 1 else 0),
                    to_float32 (fl64 (real_of_int (step_count e))),
                    Finite (real (phase_idx_of (phase sr))) ] \<rparr>"
    unfolding extract_observation_def Let_def m(1) game_info_array[OF assms(2-4)] by simp
  with m(2) m3 show ?thesis by simp
qed

text \<open>A result of the unknown phase \<^verbatim>\<open>Menu\<close> offering the indices 1 and 150, in a state
  whose score \<open>16777217\<close> the array holds as \<open>16777216\<close>.\<close>

theorem observation_encoding_witness:
  "(case extract_observation demo_env_high_score demo_unknown_phase of
      Inl err \<Rightarrow> False
    | Inr obs \<Rightarrow>
        length (available_actions obs) = 100
      \<and> available_actions obs ! 1 = 1 \<and> available_actions obs ! 50 = 0
      \<and> game_info obs =
          [ Finite 16777216, Finite 0, Finite 1, Finite 1, Finite 4, Finite 3, Finite 1,
            Finite 0, Finite 1, Finite 0 ])"
proof -
  have "\<forall>i \<in> fst ` set (actions demo_unknown_phase). 0 \<le> i"
    by (simp add: demo_unknown_phase_def)
  moreover have "double_range (current_score demo_env_high_score)"
    "double_range (current_money demo_env_high_score)"
    "double_range (real_of_int (step_count demo_env_high_score))"
    by (simp_all add: demo_env_high_score_def demo_env2_eq double_range_numeral
          double_range_0 double_range_1)
  ultimately obtain obs where
    obs: "extract_observation demo_env_high_score demo_unknown_phase = Inr obs"
      "length (available_actions obs) = 100"
      "\<forall>i<100. available_actions obs ! i =
          (if int i \<in> fst ` set (actions demo_unknown_phase) then 1 else 0)"
      "game_info obs =
         [ to_float32 (fl64 (current_score demo_env_high_score)),
           to_float32 (fl64 (current_money demo_env_high_score)),
           Finite 1, Finite 1, Finite 4, Finite 3,
           Finite (if blind_started demo_env_high_score then 1 else 0),
           Finite (if blind_finished demo_env_high_score then 1 else 0),
           to_float32 (fl64 (real_of_int (step_count demo_env_high_score))),
           Finite (real (phase_idx_of (phase demo_unknown_phase))) ]"
    using observation_encoding[of demo_unknown_phase demo_env_high_score] by blast
  from obs(3) have "available_actions obs ! 1 = 1" "available_actions obs ! 50 = 0"
    by (simp_all add: demo_unknown_phase_def)
  moreover have "phase_idx_of (phase demo_unknown_phase) = 0"
    by (simp add: demo_unknown_phase_def phase_idx_of_def phase_to_idx_def phases_def
          enumerate_eq_zip)
  moreover have "to_float32 (fl64 0) = Finite 0" "to_float32 (fl64 1) = Finite 1"
    by (simp_all add: to_float32_def fl64_0 fl64_1 fl32_0 fl32_1)
  ultimately show ?thesis using obs
    by (simp add: demo_env_high_score_def demo_env2_eq float32_high_score)
qed

section \<open>Unknown phases\<close>

lemma phase_to_idx_unknown:
  assumes "s \<notin> set phases"
  shows "phase_to_idx s = None"
  using assms by (simp add: phase_to_idx_def phases_def enumerate_eq_zip)

lemma phase_idx_of_unknown:
  assumes "p = None \<or> (\<exists>s. p = Some s \<and> s \<notin> set phases)"
  shows "phase_idx_of p = 0"
  using assms by (auto simp: phase_idx_of_def phase_to_idx_unknown)

text \<open>
  Claim C10. For every step result of the engine whose phase is absent or is a name
  outside the six known phases, in a tracked state whose score, money and step counter
  lie in the range of a float, the encoder returns an observation, and the phase index is
  0 both in the phase field and in the last of the ten entries of the info vector.
\<close>

theorem unknown_phase_encoding:
  assumes "phase sr = None \<or> (\<exists>s. phase sr = Some s \<and> s \<notin> set phases)"
    and "\<forall>i \<in> fst ` set (actions sr). 0 \<le> i"
    and "double_range (current_score e)" and "double_range (current_money e)"
    and "double_range (real_of_int (step_count e))"
  shows "\<exists>obs. extract_observation e sr = Inr obs
           \<and> obs_phase obs = [0]
           \<and> length (game_info obs) = 10 \<and> game_info obs ! 9 = Finite 0"
proof -
  from assms(2) have "\<forall>i \<in> set (map fst (actions sr)). 0 \<le> i" by simp
  from fill_mask_nonneg[OF _ this, of "replicate 100 0"] obtain m where
    m: "fill_mask (replicate 100 0) (map fst (actions sr)) = Inr m"
    by auto
  have z: "phase_idx_of (phase sr) = 0" by (rule phase_idx_of_unknown[OF assms(1)])
  have "extract_observation e sr =
          Inr \<lparr> obs_phase = [phase_idx_of (phase sr)], available_actions = m,
                game_info =
                  [ to_float32 (fl64 (current_score e)), to_float32 (fl64 (current_money e)),
                    Finite 1, Finite 1, Finite 4, Finite 3,
                    Finite (if blind_started e then 1 else 0),
                    Finite (if blind_finished e then 1 else 0),
                    to_float32 (fl64 (real_of_int (step_count e))),
                    Finite (real (phase_idx_of (phase sr))) ] \<rparr>"
    unfolding extract_observation_def Let_def m game_info_array[OF assms(3-5)] by simp
  then show ?thesis by (simp add: z)
qed

text \<open>The unknown phase \<^verbatim>\<open>Menu\<close>, and the same result without a phase.\<close>

theorem unknown_phase_encoding_witness:
  "(case extract_observation demo_env2 demo_unknown_phase of
      Inl err \<Rightarrow> False
    | Inr obs \<Rightarrow> obs_phase obs = [0] \<and> game_info obs ! 9 = Finite 0)
   \<and> (case extract_observation demo_env2 (demo_unknown_phase\<lparr>phase := None\<rparr>) of
      Inl err \<Rightarrow> False
    | Inr obs \<Rightarrow> obs_phase obs = [0] \<and> game_info obs ! 9 = Finite 0)"
proof -
  have r: "double_range (current_score demo_env2)" "double_range (current_money demo_env2)"
    "double_range (real_of_int (step_count demo_env2))"
    by (simp_all add: demo_env2_eq double_range_0 double_range_1)
  have "phase demo_unknown_phase = None
        \<or> (\<exists>s. phase demo_unknown_phase = Some s \<and> s \<notin> set phases)"
    by (simp add: demo_unknown_phase_def phases_def)
  moreover have "\<forall>i \<in> fst ` set (actions demo_unknown_phase). 0 \<le> i"
    by (simp add: demo_unknown_phase_def)
  ultimately have
    a: "\<exists>obs. extract_observation demo_env2 demo_unknown_phase = Inr obs
           \<and> obs_phase obs = [0]
           \<and> length (game_info obs) = 10 \<and> game_info obs ! 9 = Finite 0"
    using r by (rule unknown_phase_encoding)
  have "phase (demo_unknown_phase\<lparr>phase := None\<rparr>) = None
        \<or> (\<exists>s. phase (demo_unknown_phase\<lparr>phase := None\<rparr>) = Some s \<and> s \<notin> set phases)"
    by simp
  moreover have "\<forall>i \<in> fst ` set (actions (demo_unknown_phase\<lparr>phase := None\<rparr>)). 0 \<le> i"
    by (simp add: demo_unknown_phase_def)
  ultimately have
    b: "\<exists>obs. extract_observation demo_env2 (demo_unknown_phase\<lparr>phase := None\<rparr>) = Inr obs
           \<and> obs_phase obs = [0]
           \<and> length (game_info obs) = 10 \<and> game_info obs ! 9 = Finite 0"
    using r by (rule unknown_phase_encoding)
  from a b show ?thesis by auto
qed

section \<open>Episodes and the completion bonus\<close>

text \<open>A step that adds the bonus reports \<^verbatim>\<open>terminated\<close>: the bonus needs the phase
  \<^verbatim>\<open>RoundEnd\<close> and a started blind, which is the second test of \<^verbatim>\<open>_is_done\<close>.\<close>

lemma bonus_step_terminates:
  assumes "step e action (StepReturns sr snap) =
             (e', Inr (obs, reward, terminated, truncated, info))"
      and "bonus_due e' sr"
  shows "terminated"
proof -
  from assms(1) have "terminated = is_done e' sr"
    by (elim step_returnsE) auto
  with assms(2) show ?thesis by (simp add: is_done_def bonus_due_def)
qed

text \<open>Every entry of an episode is a step that returned, taken from the state the entry
  before it left.\<close>

lemma run_episode_entry:
  assumes "i < length (run_episode e xs)"
      and "run_episode e xs ! i = (e0, action, sr, e1, ret)"
  shows "\<exists>snap. step e0 action (StepReturns sr snap) = (e1, Inr ret)"
  using assms
proof (induction xs arbitrary: e i)
  case Nil
  then show ?case by simp
next
  case (Cons x rest)
  obtain a reply where x: "x = (a, reply)" by (cases x)
  show ?case
  proof (cases reply)
    case StepRaises
    with Cons.prems x show ?thesis by simp
  next
    case (StepReturns sr' snap')
    show ?thesis
    proof (cases "step e a reply")
      case (Pair e' res)
      show ?thesis
      proof (cases res)
        case (Inl err)
        with Cons.prems x StepReturns Pair show ?thesis by simp
      next
        case (Inr ret')
        obtain obs reward terminated truncated info
          where ret': "ret' = (obs, reward, terminated, truncated, info)"
          by (cases ret') auto
        have unfold: "run_episode e (x # rest) =
            (e, a, sr', e', ret') # (if terminated \<or> truncated then [] else run_episode e' rest)"
          using x StepReturns Pair Inr ret' by simp
        show ?thesis
        proof (cases i)
          case 0
          with Cons.prems(2) unfold have "(e0, action, sr, e1, ret) = (e, a, sr', e', ret')"
            by simp
          with Pair Inr StepReturns show ?thesis by auto
        next
          case (Suc j)
          with Cons.prems unfold have
            "j < length (run_episode e' rest)" "run_episode e' rest ! j = (e0, action, sr, e1, ret)"
            by (auto split: if_splits)
          from Cons.IH[OF this] show ?thesis .
        qed
      qed
    qed
  qed
qed

text \<open>A step that reports \<^verbatim>\<open>terminated\<close> is the last entry of its episode.\<close>

lemma run_episode_terminated_last:
  assumes "i < length (run_episode e xs)"
      and "run_episode e xs ! i = (e0, action, sr, e1, (obs, reward, terminated, truncated, info))"
      and "terminated"
  shows "Suc i = length (run_episode e xs)"
  using assms
proof (induction xs arbitrary: e i)
  case Nil
  then show ?case by simp
next
  case (Cons x rest)
  obtain a reply where x: "x = (a, reply)" by (cases x)
  show ?case
  proof (cases reply)
    case StepRaises
    with Cons.prems x show ?thesis by simp
  next
    case (StepReturns sr' snap')
    show ?thesis
    proof (cases "step e a reply")
      case (Pair e' res)
      show ?thesis
      proof (cases res)
        case (Inl err)
        with Cons.prems x StepReturns Pair show ?thesis by simp
      next
        case (Inr ret')
        obtain obs' reward' terminated' truncated' info'
          where ret': "ret' = (obs', reward', terminated', truncated', info')"
          by (cases ret') auto
        have unfold: "run_episode e (x # rest) =
            (e, a, sr', e', ret')
            # (if terminated' \<or> truncated' then [] else run_episode e' rest)"
          using x StepReturns Pair Inr ret' by simp
        show ?thesis
        proof (cases i)
          case 0
          with Cons.prems(2) unfold ret' have "terminated' = terminated" by simp
          with Cons.prems(3) unfold 0 show ?thesis by simp
        next
          case (Suc j)
          with Cons.prems(1,2) unfold have
            rest: "\<not> (terminated' \<or> truncated')"
            "j < length (run_episode e' rest)"
            "run_episode e' rest ! j =
               (e0, action, sr, e1, (obs, reward, terminated, truncated, info))"
            by (auto split: if_splits)
          from Cons.IH[OF rest(2,3) Cons.prems(3)] rest(1) unfold Suc show ?thesis by simp
        qed
      qed
    qed
  qed
qed

text \<open>
  Claim C7. In an episode, that is the steps a caller takes from any state up to and
  including the first step that reports \<^verbatim>\<open>terminated\<close>, the reward of a step holds the
  bonus of 1000 exactly when the phase of the step is \<^verbatim>\<open>RoundEnd\<close> and both blind flags
  hold; such a step is the last step of the episode, so it is the first step on which the
  three conditions hold, and no other step of the episode, hence none of the same blind
  cycle, receives the bonus.
\<close>

theorem single_bonus_per_episode:
  assumes "i < length (run_episode e xs)"
      and "run_episode e xs ! i =
             (e0, action, sr, e1, (obs, reward, terminated, truncated, info))"
  shows "reward =
           dadd (dadd (dadd (dadd (fl64 (max 0 (current_score e1 - previous_score e0)))
                                  (dmul (Finite 250)
                                        (fl64 (max 0 (current_money e1 - previous_money e0)))))
                            (fl64 (- (1 / 100))))
                      (if phase sr = Some ''RoundEnd'' \<and> blind_started e1 \<and> blind_finished e1
                       then Finite 1000 else Finite 0))
                (snd (resolve_action action (last_valid_actions e0)))
       \<and> (phase sr = Some ''RoundEnd'' \<and> blind_started e1 \<and> blind_finished e1 \<longrightarrow>
            terminated \<and> Suc i = length (run_episode e xs)
          \<and> (\<forall>j < length (run_episode e xs). j \<noteq> i \<longrightarrow>
                (case run_episode e xs ! j of
                   (e0', action', sr', e1', ret') \<Rightarrow>
                     \<not> (phase sr' = Some ''RoundEnd'' \<and> blind_started e1'
                        \<and> blind_finished e1'))))"
proof -
  let ?t = "run_episode e xs"
  from run_episode_entry[OF assms] obtain snap where
    s: "step e0 action (StepReturns sr snap) =
          (e1, Inr (obs, reward, terminated, truncated, info))"
    by blast
  from step_reward_value[OF s]
  have rw: "reward =
           dadd (dadd (dadd (dadd (fl64 (max 0 (current_score e1 - previous_score e0)))
                                  (dmul (Finite 250)
                                        (fl64 (max 0 (current_money e1 - previous_money e0)))))
                            (fl64 (- (1 / 100))))
                      (if phase sr = Some ''RoundEnd'' \<and> blind_started e1 \<and> blind_finished e1
                       then Finite 1000 else Finite 0))
                (snd (resolve_action action (last_valid_actions e0)))"
    by (rule conjunct1)
  have last: "terminated \<and> Suc i = length ?t
          \<and> (\<forall>j < length ?t. j \<noteq> i \<longrightarrow>
                (case ?t ! j of
                   (e0', action', sr', e1', ret') \<Rightarrow>
                     \<not> (phase sr' = Some ''RoundEnd'' \<and> blind_started e1'
                        \<and> blind_finished e1')))"
    if b: "phase sr = Some ''RoundEnd'' \<and> blind_started e1 \<and> blind_finished e1"
  proof -
    from b have "bonus_due e1 sr" by (simp add: bonus_due_def)
    from bonus_step_terminates[OF s this] have tm: "terminated" .
    from run_episode_terminated_last[OF assms tm] have li: "Suc i = length ?t" .
    have no_bonus:
      "\<not> (phase sr' = Some ''RoundEnd'' \<and> blind_started e1' \<and> blind_finished e1')"
      if j: "j < length ?t" "j \<noteq> i" "?t ! j = (e0', action', sr', e1', ret')"
      for j e0' action' sr' e1' ret'
    proof
      assume b': "phase sr' = Some ''RoundEnd'' \<and> blind_started e1' \<and> blind_finished e1'"
      obtain obs' reward' terminated' truncated' info'
        where ret': "ret' = (obs', reward', terminated', truncated', info')"
        by (cases ret') auto
      from run_episode_entry[OF j(1) j(3)] obtain snap' where
        s': "step e0' action' (StepReturns sr' snap') = (e1', Inr ret')"
        by blast
      from b' have "bonus_due e1' sr'" by (simp add: bonus_due_def)
      from bonus_step_terminates[OF s'[unfolded ret'] this] have "terminated'" .
      from run_episode_terminated_last[OF j(1) j(3)[unfolded ret'] this] li j(2)
      show False by simp
    qed
    have others: "case ?t ! j of
                   (e0', action', sr', e1', ret') \<Rightarrow>
                     \<not> (phase sr' = Some ''RoundEnd'' \<and> blind_started e1'
                        \<and> blind_finished e1')"
      if "j < length ?t" "j \<noteq> i" for j
    proof (cases "?t ! j")
      case (fields e0' action' sr' e1' ret')
      from no_bonus[OF that fields]
      have "\<not> (phase sr' = Some ''RoundEnd'' \<and> blind_started e1' \<and> blind_finished e1')" .
      with fields show ?thesis by simp
    qed
    from tm li others show ?thesis by simp
  qed
  show ?thesis
  proof (intro conjI)
    show "reward =
           dadd (dadd (dadd (dadd (fl64 (max 0 (current_score e1 - previous_score e0)))
                                  (dmul (Finite 250)
                                        (fl64 (max 0 (current_money e1 - previous_money e0)))))
                            (fl64 (- (1 / 100))))
                      (if phase sr = Some ''RoundEnd'' \<and> blind_started e1 \<and> blind_finished e1
                       then Finite 1000 else Finite 0))
                (snd (resolve_action action (last_valid_actions e0)))"
      by (rule rw)
    show "phase sr = Some ''RoundEnd'' \<and> blind_started e1 \<and> blind_finished e1 \<longrightarrow>
            terminated \<and> Suc i = length ?t
          \<and> (\<forall>j < length ?t. j \<noteq> i \<longrightarrow>
                (case ?t ! j of
                   (e0', action', sr', e1', ret') \<Rightarrow>
                     \<not> (phase sr' = Some ''RoundEnd'' \<and> blind_started e1'
                        \<and> blind_finished e1')))"
      using last by (rule impI)
  qed
qed

text \<open>The sample run: of four inputs the episode takes three steps, and the third, the
  only one in phase \<^verbatim>\<open>RoundEnd\<close>, receives the bonus and ends the episode.\<close>

lemma demo_episode:
  "\<exists>ret1 ret2 obs reward info.
     run_episode demo_env1 demo_inputs =
       [ (demo_env1, 1,
            \<lparr> status = ''NeedsInput'', phase = Some ''Playing'',
              actions = [(0, ''Play selected cards''), (2, ''Select card'')],
              finished = None \<rparr>, demo_env2, ret1),
         (demo_env2, 2,
            \<lparr> status = ''NeedsInput'', phase = Some ''Playing'',
              actions = [(0, ''Play selected cards''), (2, ''Select card'')],
              finished = None \<rparr>, demo_env3, ret2),
         (demo_env3, 999,
            \<lparr> status = ''NeedsInput'', phase = Some ''RoundEnd'',
              actions = [(1, ''Cash Out'')], finished = None \<rparr>, demo_env4,
            (obs, reward, True, False, info)) ]"
proof -
  from demo_step1_returns obtain obs1 reward1 terminated1 truncated1 info1 where
    s1: "step demo_env1 1 demo_playing =
           (demo_env2, Inr (obs1, reward1, terminated1, truncated1, info1))"
    by blast
  from demo_step2_returns obtain obs2 reward2 terminated2 truncated2 info2 where
    s2: "step demo_env2 2 demo_playing_on =
           (demo_env3, Inr (obs2, reward2, terminated2, truncated2, info2))"
    by blast
  from demo_step3_returns obtain obs3 reward3 terminated3 truncated3 info3 where
    s3: "step demo_env3 999 demo_round_end =
           (demo_env4, Inr (obs3, reward3, terminated3, truncated3, info3))"
    by blast
  from s1[unfolded demo_playing_def] have "terminated1 = is_done demo_env2
       \<lparr> status = ''NeedsInput'', phase = Some ''Playing'',
         actions = [(0, ''Play selected cards''), (2, ''Select card'')],
         finished = None \<rparr> \<and> truncated1 = False"
    by (elim step_returnsE) simp
  then have t1: "\<not> terminated1" "\<not> truncated1"
    by (simp_all add: is_done_def demo_env2_eq)
  from s2[unfolded demo_playing_on_def] have "terminated2 = is_done demo_env3
       \<lparr> status = ''NeedsInput'', phase = Some ''Playing'',
         actions = [(0, ''Play selected cards''), (2, ''Select card'')],
         finished = None \<rparr> \<and> truncated2 = False"
    by (elim step_returnsE) simp
  then have t2: "\<not> terminated2" "\<not> truncated2"
    by (simp_all add: is_done_def demo_env3_eq)
  from s3[unfolded demo_round_end_def] have "terminated3 = is_done demo_env4
       \<lparr> status = ''NeedsInput'', phase = Some ''RoundEnd'',
         actions = [(1, ''Cash Out'')], finished = None \<rparr> \<and> truncated3 = False"
    by (elim step_returnsE) simp
  then have t3: "terminated3" "\<not> truncated3"
    by (simp_all add: is_done_def demo_env4_eq)
  from t1 t2 t3 have "run_episode demo_env1 demo_inputs =
       [ (demo_env1, 1,
            \<lparr> status = ''NeedsInput'', phase = Some ''Playing'',
              actions = [(0, ''Play selected cards''), (2, ''Select card'')],
              finished = None \<rparr>, demo_env2, (obs1, reward1, terminated1, truncated1, info1)),
         (demo_env2, 2,
            \<lparr> status = ''NeedsInput'', phase = Some ''Playing'',
              actions = [(0, ''Play selected cards''), (2, ''Select card'')],
              finished = None \<rparr>, demo_env3, (obs2, reward2, terminated2, truncated2, info2)),
         (demo_env3, 999,
            \<lparr> status = ''NeedsInput'', phase = Some ''RoundEnd'',
              actions = [(1, ''Cash Out'')], finished = None \<rparr>, demo_env4,
            (obs3, reward3, True, False, info3)) ]"
    using s1[unfolded demo_playing_def] s2[unfolded demo_playing_on_def]
      s3[unfolded demo_round_end_def]
    by (simp add: demo_inputs_def demo_playing_def demo_playing_on_def demo_round_end_def
          demo_shop_def)
  then show ?thesis by blast
qed

theorem single_bonus_per_episode_witness:
  "length (run_episode demo_env1 demo_inputs) = 3
   \<and> (case run_episode demo_env1 demo_inputs ! 2 of
        (e0, action, sr, e1, (obs, reward, terminated, truncated, info)) \<Rightarrow>
          phase sr = Some ''RoundEnd'' \<and> blind_started e1 \<and> blind_finished e1
        \<and> terminated \<and> reward = Finite (8444205320854569 / 4398046511104))
   \<and> (case run_episode demo_env1 demo_inputs ! 0 of
        (e0, action, sr, e1, ret) \<Rightarrow> phase sr \<noteq> Some ''RoundEnd'')
   \<and> (case run_episode demo_env1 demo_inputs ! 1 of
        (e0, action, sr, e1, ret) \<Rightarrow> phase sr \<noteq> Some ''RoundEnd'')"
proof -
  from demo_episode obtain ret1 ret2 obs reward info where
    r: "run_episode demo_env1 demo_inputs =
       [ (demo_env1, 1,
            \<lparr> status = ''NeedsInput'', phase = Some ''Playing'',
              actions = [(0, ''Play selected cards''), (2, ''Select card'')],
              finished = None \<rparr>, demo_env2, ret1),
         (demo_env2, 2,
            \<lparr> status = ''NeedsInput'', phase = Some ''Playing'',
              actions = [(0, ''Play selected cards''), (2, ''Select card'')],
              finished = None \<rparr>, demo_env3, ret2),
         (demo_env3, 999,
            \<lparr> status = ''NeedsInput'', phase = Some ''RoundEnd'',
              actions = [(1, ''Cash Out'')], finished = None \<rparr>, demo_env4,
            (obs, reward, True, False, info)) ]"
    by blast
  have i: "2 < length (run_episode demo_env1 demo_inputs)" by (simp add: r)
  have n: "run_episode demo_env1 demo_inputs ! 2 =
      (demo_env3, 999,
            \<lparr> status = ''NeedsInput'', phase = Some ''RoundEnd'',
              actions = [(1, ''Cash Out'')], finished = None \<rparr>, demo_env4,
            (obs, reward, True, False, info))"
    by (simp add: r)
  from single_bonus_per_episode[OF i n]
  have "reward = dadd (dadd (dadd (dadd (Finite 180) (dmul (Finite 250) (Finite 3)))
                  (fl64 (- (1 / 100)))) (Finite 1000)) (Finite (- 10))"
    and "\<forall>j<length (run_episode demo_env1 demo_inputs). j \<noteq> 2 \<longrightarrow>
           (case run_episode demo_env1 demo_inputs ! j of
              (e0', action', sr', e1', ret') \<Rightarrow>
                \<not> (phase sr' = Some ''RoundEnd'' \<and> blind_started e1' \<and> blind_finished e1'))"
    by (simp_all add: demo_env3_eq demo_env4_eq resolve_action_def fl64_numeral)
  then show ?thesis by (simp add: r demo_env4_eq demo_reward_round_end)
qed

section \<open>The descriptor table\<close>

lemma lowest_free_SomeD:
  assumes "lowest_free s = Some n"
  shows "n < nofile s \<and> fds s n = None"
  using assms by (auto simp: lowest_free_def find_Some_iff)

lemma free_count_card:
  "free_count s = card {n. n < nofile s \<and> fds s n = None}"
proof -
  have "{n. fds s n = None} \<inter> set [0..<nofile s] = {n. n < nofile s \<and> fds s n = None}"
    by auto
  then show ?thesis
    by (simp add: free_count_def distinct_length_filter)
qed

lemma lowest_free_exists:
  assumes "0 < free_count s"
  obtains n where "lowest_free s = Some n" "n < nofile s" "fds s n = None"
proof -
  from assms have "filter (\<lambda>n. fds s n = None) [0..<nofile s] \<noteq> []"
    by (auto simp: free_count_def)
  then have "\<exists>n \<in> set [0..<nofile s]. fds s n = None"
    by (simp add: filter_empty_conv)
  then have "lowest_free s \<noteq> None"
    by (auto simp: lowest_free_def find_None_iff)
  then obtain n where "lowest_free s = Some n" by auto
  with lowest_free_SomeD[OF this] that show ?thesis by blast
qed

lemma free_count_occupy:
  assumes "n < nofile s" "fds s n = None" "fds s' = (fds s)(n \<mapsto> t)" "nofile s' = nofile s"
  shows "free_count s' = free_count s - 1"
proof -
  have "{k. k < nofile s' \<and> fds s' k = None} = {k. k < nofile s \<and> fds s k = None} - {n}"
    using assms by auto
  moreover have "n \<in> {k. k < nofile s \<and> fds s k = None}" using assms by simp
  ultimately show ?thesis by (simp add: free_count_card)
qed

lemma free_count_overwrite:
  assumes "fds s k \<noteq> None" "fds s' = (fds s)(k \<mapsto> t)" "nofile s' = nofile s"
  shows "free_count s' = free_count s"
proof -
  have "{j. j < nofile s' \<and> fds s' j = None} = {j. j < nofile s \<and> fds s j = None}"
    using assms by auto
  then show ?thesis by (simp add: free_count_card)
qed

lemma free_count_same_table:
  assumes "fds s' = fds s" "nofile s' = nofile s"
  shows "free_count s' = free_count s"
  using assms by (simp add: free_count_def)

text \<open>The guard around an engine call, when descriptors 1 and 2 are open and five
  descriptors are free: the call runs with both redirected to the null device, and
  afterwards the table and the two Python streams are as before, whether the call
  returned or raised. The five descriptors the guard opened were free before, and each is
  released once.\<close>

lemma guard_restores:
  assumes open1: "fds s 1 = Some t1" and open2: "fds s 2 = Some t2"
      and lim: "2 < nofile s" and free: "5 \<le> free_count s"
  shows "\<exists>s' ds. suppress_output True (call_engine c r) s = (s', r)
           \<and> fds s' = fds s \<and> nofile s' = nofile s
           \<and> sys_stdout s' = sys_stdout s \<and> sys_stderr s' = sys_stderr s
           \<and> calls s' = calls s @ [(c, Some DevNull, Some DevNull)]
           \<and> released s' = released s @ ds
           \<and> distinct ds \<and> length ds = 5 \<and> list_all (\<lambda>d. fds s d = None) ds"
proof -
  \<comment> \<open>the two duplicates\<close>
  from free obtain d1 where d1: "lowest_free s = Some d1" "d1 < nofile s" "fds s d1 = None"
    by (elim lowest_free_exists[of s, rotated]) simp
  define s1 where "s1 = s\<lparr>fds := (fds s)(d1 \<mapsto> t1)\<rparr>"
  have a1: "os_dup 1 s = (s1, Inr d1)"
    using open1 d1 by (simp add: os_dup_def s1_def)
  have fc1: "free_count s1 = free_count s - 1"
    by (rule free_count_occupy[OF d1(2,3)]) (simp_all add: s1_def)
  from d1(3) open1 open2 have std1: "d1 \<noteq> 1" "d1 \<noteq> 2" by auto
  from fc1 free obtain d2 where d2: "lowest_free s1 = Some d2" "d2 < nofile s1" "fds s1 d2 = None"
    by (elim lowest_free_exists[of s1, rotated]) simp
  from d2(3) have n2: "d2 \<noteq> d1" "fds s d2 = None"
    by (auto simp: s1_def split: if_splits)
  from n2(2) open1 open2 have std2: "d2 \<noteq> 1" "d2 \<noteq> 2" by auto
  define s2 where "s2 = s1\<lparr>fds := (fds s1)(d2 \<mapsto> t2)\<rparr>"
  have a2: "os_dup 2 s1 = (s2, Inr d2)"
    using open2 std1 d2 by (simp add: os_dup_def s2_def s1_def)
  have fc2: "free_count s2 = free_count s1 - 1"
    by (rule free_count_occupy[OF d2(2,3)]) (simp_all add: s2_def)
  \<comment> \<open>the null device and the two redirections\<close>
  from fc2 fc1 free
  obtain d3 where d3: "lowest_free s2 = Some d3" "d3 < nofile s2" "fds s2 d3 = None"
    by (elim lowest_free_exists[of s2, rotated]) simp
  from d3(3) have n3: "d3 \<noteq> d1" "d3 \<noteq> d2" "fds s d3 = None"
    by (auto simp: s2_def s1_def split: if_splits)
  from n3(3) open1 open2 have std3: "d3 \<noteq> 1" "d3 \<noteq> 2" by auto
  define s3 where "s3 = s2\<lparr>fds := (fds s2)(d3 \<mapsto> DevNull)\<rparr>"
  have a3: "os_open_devnull s2 = (s3, Inr d3)"
    using d3 by (simp add: os_open_devnull_def s3_def)
  have fc3: "free_count s3 = free_count s2 - 1"
    by (rule free_count_occupy[OF d3(2,3)]) (simp_all add: s3_def)
  define s4 where "s4 = s3\<lparr>fds := (fds s3)(1 \<mapsto> DevNull)\<rparr>"
  define s5 where "s5 = s4\<lparr>fds := (fds s4)(2 \<mapsto> DevNull)\<rparr>"
  have nf3: "nofile s3 = nofile s" by (simp add: s3_def s2_def s1_def)
  have nf4: "nofile s4 = nofile s" by (simp add: s4_def nf3)
  have s3_d3: "fds s3 d3 = Some DevNull" by (simp add: s3_def)
  have a4: "os_dup2 d3 1 s3 = (s4, None)"
    using lim s3_d3 nf3 by (simp add: os_dup2_def s4_def)
  have s4_d3: "fds s4 d3 = Some DevNull" using std3 by (simp add: s4_def s3_def)
  have a5: "os_dup2 d3 2 s4 = (s5, None)"
    using lim s4_d3 nf4 by (simp add: os_dup2_def s5_def)
  have s3_1: "fds s3 1 \<noteq> None"
    using open1 std1 std2 std3 by (simp add: s3_def s2_def s1_def)
  have fc4: "free_count s4 = free_count s3"
    by (rule free_count_overwrite[OF s3_1]) (simp_all add: s4_def)
  have s4_2: "fds s4 2 \<noteq> None"
    using open2 std1 std2 std3 by (simp add: s4_def s3_def s2_def s1_def)
  have fc5: "free_count s5 = free_count s4"
    by (rule free_count_overwrite[OF s4_2]) (simp_all add: s5_def)
  have t5: "fds s5 = (fds s)(d1 \<mapsto> t1, d2 \<mapsto> t2, d3 \<mapsto> DevNull, 1 \<mapsto> DevNull, 2 \<mapsto> DevNull)"
    by (simp add: s5_def s4_def s3_def s2_def s1_def)
  \<comment> \<open>the two writers\<close>
  from fc5 fc4 fc3 fc2 fc1 free
  obtain d4 where d4: "lowest_free s5 = Some d4" "d4 < nofile s5" "fds s5 d4 = None"
    by (elim lowest_free_exists[of s5, rotated]) simp
  from d4(3) have n4: "d4 \<noteq> d1" "d4 \<noteq> d2" "d4 \<noteq> d3" "d4 \<noteq> 1" "d4 \<noteq> 2" "fds s d4 = None"
    unfolding t5 by (auto split: if_splits)
  define s6 where "s6 = s5\<lparr>fds := (fds s5)(d4 \<mapsto> DevNull)\<rparr>"
  have a6: "py_open_devnull s5 = (s6, Inr (NullWriter d4))"
    using d4 by (simp add: py_open_devnull_def os_open_devnull_def s6_def)
  have fc6: "free_count s6 = free_count s5 - 1"
    by (rule free_count_occupy[OF d4(2,3)]) (simp_all add: s6_def)
  define s6' where "s6' = s6\<lparr>sys_stdout := NullWriter d4\<rparr>"
  have fc6': "free_count s6' = free_count s6"
    by (rule free_count_same_table) (simp_all add: s6'_def)
  have t6: "fds s6' = (fds s)(d1 \<mapsto> t1, d2 \<mapsto> t2, d3 \<mapsto> DevNull, 1 \<mapsto> DevNull,
                             2 \<mapsto> DevNull, d4 \<mapsto> DevNull)"
    by (simp add: s6'_def s6_def t5)
  from fc6' fc6 fc5 fc4 fc3 fc2 fc1 free
  obtain d5 where d5: "lowest_free s6' = Some d5" "d5 < nofile s6'" "fds s6' d5 = None"
    by (elim lowest_free_exists[of s6', rotated]) simp
  from d5(3) have n5: "d5 \<noteq> d1" "d5 \<noteq> d2" "d5 \<noteq> d3" "d5 \<noteq> d4" "d5 \<noteq> 1" "d5 \<noteq> 2"
    "fds s d5 = None"
    unfolding t6 by (auto split: if_splits)
  define s7 where "s7 = s6'\<lparr>fds := (fds s6')(d5 \<mapsto> DevNull)\<rparr>"
  have a7: "py_open_devnull s6' = (s7, Inr (NullWriter d5))"
    using d5 by (simp add: py_open_devnull_def os_open_devnull_def s7_def)
  define s7' where "s7' = s7\<lparr>sys_stderr := NullWriter d5\<rparr>"
  have t7: "fds s7' = (fds s)(d1 \<mapsto> t1, d2 \<mapsto> t2, d3 \<mapsto> DevNull, 1 \<mapsto> DevNull,
                             2 \<mapsto> DevNull, d4 \<mapsto> DevNull, d5 \<mapsto> DevNull)"
    by (simp add: s7'_def s7_def t6)
  note defs = s7'_def s7_def s6'_def s6_def s5_def s4_def s3_def s2_def s1_def
  note ne = std1 std2 std3 n2(1) n3(1,2) n4(1-5) n5(1-6)
  \<comment> \<open>the call runs with both descriptors on the null device\<close>
  define s8 where "s8 = s7'\<lparr>calls := calls s7' @ [(c, Some DevNull, Some DevNull)]\<rparr>"
  have body: "call_engine c r s7' = (s8, r)"
    using ne by (simp add: call_engine_def s8_def t7)
  \<comment> \<open>the \<open>finally\<close> block, statement by statement\<close>
  define u1 where "u1 = s8\<lparr>fds := (fds s8)(d4 := None), released := released s8 @ [d4]\<rparr>"
  define u2 where "u2 = u1\<lparr>fds := (fds u1)(d5 := None), released := released u1 @ [d5]\<rparr>"
  define u3 where "u3 = u2\<lparr>sys_stdout := sys_stdout s\<rparr>"
  define u4 where "u4 = u3\<lparr>sys_stderr := sys_stderr s\<rparr>"
  define u5 where "u5 = u4\<lparr>fds := (fds u4)(1 \<mapsto> t1)\<rparr>"
  define u6 where "u6 = u5\<lparr>fds := (fds u5)(2 \<mapsto> t2)\<rparr>"
  define u7 where "u7 = u6\<lparr>fds := (fds u6)(d1 := None), released := released u6 @ [d1]\<rparr>"
  define u8 where "u8 = u7\<lparr>fds := (fds u7)(d2 := None), released := released u7 @ [d2]\<rparr>"
  define u9 where "u9 = u8\<lparr>fds := (fds u8)(d3 := None), released := released u8 @ [d3]\<rparr>"
  have t8: "fds s8 = fds s7'" "sys_stdout s8 = NullWriter d4" "sys_stderr s8 = NullWriter d5"
    by (simp_all add: s8_def s7'_def s7_def s6'_def)
  have c1: "py_close (sys_stdout s8) s8 = (u1, None)"
    using ne by (simp add: py_close_def os_close_def u1_def t8 t7)
  have c2: "py_close (sys_stderr u1) u1 = (u2, None)"
    using ne by (simp add: py_close_def os_close_def u2_def u1_def t8 t7)
  have tu4: "fds u4 = (fds s)(d1 \<mapsto> t1, d2 \<mapsto> t2, d3 \<mapsto> DevNull, 1 \<mapsto> DevNull,
                            2 \<mapsto> DevNull, d4 := None, d5 := None)"
    using ne by (simp add: u4_def u3_def u2_def u1_def t8 t7)
  have nu4: "nofile u4 = nofile s"
    by (simp add: u4_def u3_def u2_def u1_def s8_def s7'_def s7_def s6'_def s6_def s5_def
          nf4)
  have c5: "os_dup2 d1 1 u4 = (u5, None)"
    using ne lim by (simp add: os_dup2_def u5_def tu4 nu4)
  have c6: "os_dup2 d2 2 u5 = (u6, None)"
    using ne lim by (simp add: os_dup2_def u6_def u5_def tu4 nu4)
  have c7: "os_close d1 u6 = (u7, None)"
    using ne by (simp add: os_close_def u7_def u6_def u5_def tu4)
  have c8: "os_close d2 u7 = (u8, None)"
    using ne by (simp add: os_close_def u8_def u7_def u6_def u5_def tu4)
  have c9: "os_close d3 u8 = (u9, None)"
    using ne by (simp add: os_close_def u9_def u8_def u7_def u6_def u5_def tu4)
  have fin: "finally_restore d1 d2 d3 (sys_stdout s) (sys_stderr s) s8 = (u9, None)"
    using c1 c2 c5 c6 c7 c8 c9
    by (simp add: finally_restore_def seq_def u3_def[symmetric] u4_def[symmetric])
  \<comment> \<open>the state the guard leaves\<close>
  have tu9: "fds u9 = fds s"
  proof
    fix k
    show "fds u9 k = fds s k"
      using ne open1 open2 d1(3) n2(2) n3(3) n4(6) n5(7)
      by (simp add: u9_def u8_def u7_def u6_def u5_def tu4)
  qed
  have nf5: "nofile s5 = nofile s" by (simp add: s5_def nf4)
  have r5: "released s5 = released s" "calls s5 = calls s"
    by (simp_all add: s5_def s4_def s3_def s2_def s1_def)
  have r8: "released s8 = released s" "calls s8 = calls s @ [(c, Some DevNull, Some DevNull)]"
    "nofile s8 = nofile s"
    by (simp_all add: s8_def s7'_def s7_def s6'_def s6_def r5 nf5)
  have r2: "released u2 = released s8 @ [d4, d5]" "calls u2 = calls s8" "nofile u2 = nofile s8"
    by (simp_all add: u2_def u1_def)
  have r4: "released u4 = released u2" "calls u4 = calls u2" "nofile u4 = nofile u2"
    "sys_stdout u4 = sys_stdout s" "sys_stderr u4 = sys_stderr s"
    by (simp_all add: u4_def u3_def)
  have r6: "released u6 = released u4" "calls u6 = calls u4" "nofile u6 = nofile u4"
    "sys_stdout u6 = sys_stdout u4" "sys_stderr u6 = sys_stderr u4"
    by (simp_all add: u6_def u5_def)
  have r9: "released u9 = released u6 @ [d1, d2, d3]" "calls u9 = calls u6"
    "nofile u9 = nofile u6" "sys_stdout u9 = sys_stdout u6" "sys_stderr u9 = sys_stderr u6"
    by (simp_all add: u9_def u8_def u7_def)
  have rest: "nofile u9 = nofile s" "sys_stdout u9 = sys_stdout s"
    "sys_stderr u9 = sys_stderr s"
    "calls u9 = calls s @ [(c, Some DevNull, Some DevNull)]"
    "released u9 = released s @ [d4, d5, d1, d2, d3]"
    by (simp_all add: r9 r6 r4 r2 r8)
  have o5: "sys_stdout s5 = sys_stdout s" "sys_stderr s5 = sys_stderr s"
    by (simp_all add: s5_def s4_def s3_def s2_def s1_def)
  have red: "redirected d1 d2 (call_engine c r) s2 = (u9, r)"
    using a3 a4 a5 a6 a7 body fin o5
    by (simp add: redirected_def Let_def s6'_def[symmetric] s7'_def[symmetric])
  have handler: "handler_restore d1 d2 u9 = u9"
    using d1(3) by (simp add: handler_restore_def seq_def os_dup2_def tu9)
  have run: "suppress_output True (call_engine c r) s = (u9, r)"
    using a1 a2 red handler by (cases r) (simp_all add: suppress_output_def)
  have "distinct [d4, d5, d1, d2, d3]" using ne by auto
  moreover have "list_all (\<lambda>d. fds s d = None) [d4, d5, d1, d2, d3]"
    using d1(3) n2(2) n3(3) n4(6) n5(7) by simp
  ultimately show ?thesis
    using run tu9 rest
    by (intro exI[of _ u9] exI[of _ "[d4, d5, d1, d2, d3]"]) simp
qed

section \<open>The engine calls under the guard\<close>

lemma guard_pre_restored:
  assumes "guard_pre t1 t2 s" and "restored_after s s'"
  shows "guard_pre t1 t2 s'"
proof -
  from assms(2) have "free_count s' = free_count s"
    by (intro free_count_same_table) (simp_all add: restored_after_def)
  with assms show ?thesis by (simp add: guard_pre_def restored_after_def)
qed

lemma io_safe_guarded:
  assumes "c = StartNewRun \<or> c = EngineStep"
  shows "io_safe t1 t2 (suppress_output True (call_engine c r))"
  unfolding io_safe_def
proof (intro allI impI)
  fix s assume "guard_pre t1 t2 s"
  then have pre: "fds s 1 = Some t1" "fds s 2 = Some t2" "2 < nofile s" "5 \<le> free_count s"
    by (simp_all add: guard_pre_def)
  from guard_restores[OF pre, of c r] obtain s' where
    "suppress_output True (call_engine c r) s = (s', r)" "restored_after s s'"
    "calls s' = calls s @ [(c, Some DevNull, Some DevNull)]"
    by (auto simp: restored_after_def)
  moreover have "list_all (call_ok t1 t2) [(c, Some DevNull, Some DevNull)]"
    using assms by (auto simp: call_ok_def)
  ultimately show "\<exists>s' r' new. suppress_output True (call_engine c r) s = (s', r')
      \<and> restored_after s s' \<and> calls s' = calls s @ new \<and> list_all (call_ok t1 t2) new"
    by blast
qed

lemma io_safe_plain:
  assumes "c \<noteq> StartNewRun" "c \<noteq> EngineStep"
  shows "io_safe t1 t2 (call_engine c r)"
  using assms
  by (auto simp: io_safe_def call_engine_def restored_after_def call_ok_def guard_pre_def)

lemma io_safe_return: "io_safe t1 t2 (\<lambda>s. (s, Returned v))"
  by (simp add: io_safe_def restored_after_def)

lemma io_safe_then_do:
  assumes m: "io_safe t1 t2 m" and f: "\<And>v. io_safe t1 t2 (f v)"
  shows "io_safe t1 t2 (then_do m f)"
  unfolding io_safe_def
proof (intro allI impI)
  fix s assume pre: "guard_pre t1 t2 s"
  with m obtain s1 r1 new1 where
    m1: "m s = (s1, r1)" "restored_after s s1" "calls s1 = calls s @ new1"
        "list_all (call_ok t1 t2) new1"
    unfolding io_safe_def by blast
  show "\<exists>s' r new. then_do m f s = (s', r) \<and> restored_after s s'
          \<and> calls s' = calls s @ new \<and> list_all (call_ok t1 t2) new"
  proof (cases r1)
    case (Raised x)
    with m1 show ?thesis by (auto simp: then_do_def)
  next
    case (Returned v)
    from guard_pre_restored[OF pre m1(2)] f[of v] obtain s2 r2 new2 where
      m2: "f v s1 = (s2, r2)" "restored_after s1 s2" "calls s2 = calls s1 @ new2"
          "list_all (call_ok t1 t2) new2"
      unfolding io_safe_def by blast
    from m1(2) m2(2) have "restored_after s s2" by (simp add: restored_after_def)
    moreover from m1(3) m2(3) have "calls s2 = calls s @ (new1 @ new2)" by simp
    moreover from m1(4) m2(4) have "list_all (call_ok t1 t2) (new1 @ new2)" by simp
    moreover from Returned m1(1) m2(1) have "then_do m f s = (s2, r2)"
      by (simp add: then_do_def)
    ultimately show ?thesis by blast
  qed
qed

lemma io_safe_try_get_score_money: "io_safe t1 t2 (try_get_score_money_io answer)"
  by (cases answer)
     (auto simp: io_safe_def try_get_score_money_io_def call_engine_def restored_after_def
        call_ok_def guard_pre_def)

lemma io_safe_reset: "io_safe t1 t2 (reset_io True answer probe)"
  unfolding reset_io_def
  by (intro io_safe_then_do io_safe_plain io_safe_guarded) simp_all

lemma io_safe_step:
  assumes "quiet e"
  shows "io_safe t1 t2 (step_io e answer snap_answer)"
  unfolding step_io_def
proof (rule io_safe_then_do)
  show "io_safe t1 t2 (suppress_output (quiet e) (call_engine EngineStep answer))"
    using assms by (simp add: io_safe_guarded)
next
  fix sr
  show "io_safe t1 t2
          (if asks_snapshot (e\<lparr>step_count := step_count e + 1\<rparr>) sr
           then then_do (try_get_score_money_io snap_answer) (\<lambda>_ s. (s, Returned sr))
           else (\<lambda>s. (s, Returned sr)))"
    by (simp add: io_safe_then_do io_safe_try_get_score_money io_safe_return)
qed

text \<open>The pure model of the tracker reads the snapshot in no other branch.\<close>

lemma snapshot_unread:
  assumes "\<not> asks_snapshot e sr"
  shows "update_tracking e sr snap = update_tracking e sr snap'"
  using assms by (auto simp: asks_snapshot_def update_tracking_def)

text \<open>The log of a step in quiet mode: the engine step under the guard, then, in the
  branches of the tracker that ask for it, the snapshot query with descriptors 1 and 2
  as they were.\<close>

lemma step_io_calls:
  assumes pre: "guard_pre t1 t2 s" and q: "quiet e"
  shows "\<exists>s' res. step_io e answer snap_answer s = (s', res) \<and> restored_after s s'
           \<and> calls s' = calls s @ (EngineStep, Some DevNull, Some DevNull)
                 # (case answer of
                      Raised x \<Rightarrow> []
                    | Returned sr \<Rightarrow>
                        if asks_snapshot (e\<lparr>step_count := step_count e + 1\<rparr>) sr
                        then [(GameState, Some t1, Some t2)] else [])"
proof -
  from pre have p: "fds s 1 = Some t1" "fds s 2 = Some t2" "2 < nofile s" "5 \<le> free_count s"
    by (simp_all add: guard_pre_def)
  from guard_restores[OF p, of EngineStep answer] obtain s1 where
    g: "suppress_output True (call_engine EngineStep answer) s = (s1, answer)"
       "restored_after s s1"
       "calls s1 = calls s @ [(EngineStep, Some DevNull, Some DevNull)]"
    by (auto simp: restored_after_def)
  show ?thesis
  proof (cases answer)
    case (Raised x)
    with g q show ?thesis by (auto simp: step_io_def then_do_def)
  next
    case (Returned sr)
    show ?thesis
    proof (cases "asks_snapshot (e\<lparr>step_count := step_count e + 1\<rparr>) sr")
      case False
      with g q Returned show ?thesis by (auto simp: step_io_def then_do_def)
    next
      case True
      define s2 where "s2 = s1\<lparr>calls := calls s1 @ [(GameState, fds s1 1, fds s1 2)]\<rparr>"
      from g(2) p have t: "fds s1 1 = Some t1" "fds s1 2 = Some t2"
        by (simp_all add: restored_after_def)
      have "\<exists>res. then_do (try_get_score_money_io snap_answer) (\<lambda>_ s. (s, Returned sr)) s1
               = (s2, res)"
        by (cases snap_answer)
           (auto simp: then_do_def try_get_score_money_io_def call_engine_def s2_def)
      then obtain res where
        "then_do (try_get_score_money_io snap_answer) (\<lambda>_ s. (s, Returned sr)) s1 = (s2, res)"
        by blast
      with g(1) q Returned True have "step_io e answer snap_answer s = (s2, res)"
        by (simp add: step_io_def then_do_def)
      moreover from g(2) have "restored_after s s2"
        by (simp add: restored_after_def s2_def)
      moreover from g(3) t have "calls s2 = calls s @ [(EngineStep, Some DevNull, Some DevNull),
          (GameState, Some t1, Some t2)]"
        by (simp add: s2_def)
      ultimately show ?thesis using Returned True by auto
    qed
  qed
qed

lemma demo_os_pre: "guard_pre (Stream 1) (Stream 2) demo_os"
  by (simp add: guard_pre_def free_count_def demo_os_def upt_rec)

text \<open>
  Claim C8 as stated fails twice. In the first step of the sample run the snapshot query
  \<^verbatim>\<open>engine.game_state()\<close> is an engine call of \<^verbatim>\<open>step\<close> that runs outside the guard,
  with descriptors 1 and 2 not redirected. And when the process has a single free
  descriptor left, the guard is left by the error of the second \<^verbatim>\<open>os.dup\<close> while the
  duplicate of descriptor 1, made before the \<^verbatim>\<open>try\<close>, stays open.
\<close>

theorem unguarded_call_and_leak:
  "calls (fst (step_io demo_env1
          (Returned \<lparr> status = ''NeedsInput'', phase = Some ''Playing'',
                      actions = [(0, ''Play selected cards''), (2, ''Select card'')],
                      finished = None \<rparr>)
          (Returned (Some 0, Some 4)) demo_os))
     = [(EngineStep, Some DevNull, Some DevNull), (GameState, Some (Stream 1), Some (Stream 2))]
   \<and> fds demo_os_full 3 = None
   \<and> fds (fst (suppress_output True (call_engine EngineStep (Returned ())) demo_os_full)) 3
       = Some (Stream 1)
   \<and> snd (suppress_output True (call_engine EngineStep (Returned ())) demo_os_full)
       = Raised (OSError EMFILE)"
proof -
  have q: "quiet demo_env1" by (simp add: demo_env1_eq)
  have "asks_snapshot (demo_env1\<lparr>step_count := step_count demo_env1 + 1\<rparr>)
          \<lparr> status = ''NeedsInput'', phase = Some ''Playing'',
            actions = [(0, ''Play selected cards''), (2, ''Select card'')],
            finished = None \<rparr>"
    by (simp add: asks_snapshot_def demo_env1_eq)
  with step_io_calls[OF demo_os_pre q,
      of "Returned \<lparr> status = ''NeedsInput'', phase = Some ''Playing'',
                     actions = [(0, ''Play selected cards''), (2, ''Select card'')],
                     finished = None \<rparr>" "Returned (Some 0, Some 4)"]
  have "calls (fst (step_io demo_env1
          (Returned \<lparr> status = ''NeedsInput'', phase = Some ''Playing'',
                      actions = [(0, ''Play selected cards''), (2, ''Select card'')],
                      finished = None \<rparr>)
          (Returned (Some 0, Some 4)) demo_os))
     = [(EngineStep, Some DevNull, Some DevNull), (GameState, Some (Stream 1), Some (Stream 2))]"
    by (auto simp: demo_os_def)
  moreover have "fds demo_os_full 3 = None
   \<and> fds (fst (suppress_output True (call_engine EngineStep (Returned ())) demo_os_full)) 3
       = Some (Stream 1)
   \<and> snd (suppress_output True (call_engine EngineStep (Returned ())) demo_os_full)
       = Raised (OSError EMFILE)"
    by (simp add: suppress_output_def os_dup_def lowest_free_def demo_os_full_def demo_os_def
          upt_rec)
  ultimately show ?thesis by simp
qed

text \<open>
  Claim C8, amended. Let descriptors 1 and 2 be open and five descriptors be free when
  the guard is entered. Then an engine call under the guard in quiet mode runs with
  descriptors 1 and 2 on the null device, and on either exit, the return of the call or
  its exception, the guard hands on the outcome of the call with the descriptor table and
  \<^verbatim>\<open>sys.stdout\<close>, \<^verbatim>\<open>sys.stderr\<close> as they were before; the five descriptors it opened
  were free before and each is released once. Without quiet mode the guard does nothing.
  Of the engine calls of \<^verbatim>\<open>reset\<close> and \<^verbatim>\<open>step\<close> in quiet mode, the start of the run and
  the engine steps run under the guard, while the construction of the engine, the deck
  and stake setup and the snapshot query run with descriptors 1 and 2 as they were; and
  \<^verbatim>\<open>reset\<close> and \<^verbatim>\<open>step\<close> leave the descriptor table and the two streams as they found
  them.
\<close>

theorem output_suppression:
  assumes "guard_pre t1 t2 s"
  shows "(\<exists>s' ds. suppress_output True (call_engine c r) s = (s', r)
            \<and> restored_after s s'
            \<and> calls s' = calls s @ [(c, Some DevNull, Some DevNull)]
            \<and> released s' = released s @ ds
            \<and> distinct ds \<and> length ds = 5 \<and> list_all (\<lambda>d. fds s d = None) ds)
       \<and> suppress_output False (call_engine c r) s = call_engine c r s
       \<and> (\<exists>s' res new. reset_io True answer probe s = (s', res)
            \<and> restored_after s s'
            \<and> calls s' = calls s @ new \<and> list_all (call_ok t1 t2) new)
       \<and> (\<exists>s' res. step_io (e\<lparr>quiet := True\<rparr>) step_answer snap_answer s = (s', res)
            \<and> restored_after s s'
            \<and> calls s' = calls s @ (EngineStep, Some DevNull, Some DevNull)
                  # (case step_answer of
                       Raised x \<Rightarrow> []
                     | Returned sr \<Rightarrow>
                         if asks_snapshot (e\<lparr>step_count := step_count e + 1\<rparr>) sr
                         then [(GameState, Some t1, Some t2)] else []))"
proof (intro conjI)
  from assms have p: "fds s 1 = Some t1" "fds s 2 = Some t2" "2 < nofile s" "5 \<le> free_count s"
    by (simp_all add: guard_pre_def)
  from guard_restores[OF p, of c r]
  show "\<exists>s' ds. suppress_output True (call_engine c r) s = (s', r)
            \<and> restored_after s s'
            \<and> calls s' = calls s @ [(c, Some DevNull, Some DevNull)]
            \<and> released s' = released s @ ds
            \<and> distinct ds \<and> length ds = 5 \<and> list_all (\<lambda>d. fds s d = None) ds"
    by (auto simp: restored_after_def)
next
  show "suppress_output False (call_engine c r) s = call_engine c r s"
    by (simp add: suppress_output_def)
next
  from io_safe_reset[of t1 t2 answer probe] assms
  show "\<exists>s' res new. reset_io True answer probe s = (s', res)
            \<and> restored_after s s'
            \<and> calls s' = calls s @ new \<and> list_all (call_ok t1 t2) new"
    unfolding io_safe_def by blast
next
  have eq: "asks_snapshot (e\<lparr>quiet := True, step_count := step_count (e\<lparr>quiet := True\<rparr>) + 1\<rparr>) sr
        = asks_snapshot (e\<lparr>step_count := step_count e + 1\<rparr>) sr" for sr
    by (simp add: asks_snapshot_def)
  have "quiet (e\<lparr>quiet := True\<rparr>)" by simp
  from step_io_calls[OF assms this, of step_answer snap_answer, unfolded eq]
  show "\<exists>s' res. step_io (e\<lparr>quiet := True\<rparr>) step_answer snap_answer s = (s', res)
            \<and> restored_after s s'
            \<and> calls s' = calls s @ (EngineStep, Some DevNull, Some DevNull)
                  # (case step_answer of
                       Raised x \<Rightarrow> []
                     | Returned sr \<Rightarrow>
                         if asks_snapshot (e\<lparr>step_count := step_count e + 1\<rparr>) sr
                         then [(GameState, Some t1, Some t2)] else [])" .
qed

text \<open>A process with three open descriptors and five free ones: an engine step that
  raises, the calls of a reset whose setup calls return and whose probe panics, and the
  calls of a step whose engine step raises.\<close>

theorem output_suppression_witness:
  "restored_after demo_os
     (fst (suppress_output True
             (call_engine EngineStep (Raised EngineException :: step_result outcome)) demo_os))
   \<and> snd (suppress_output True
             (call_engine EngineStep (Raised EngineException :: step_result outcome)) demo_os)
       = Raised EngineException
   \<and> calls (fst (suppress_output True
             (call_engine EngineStep (Raised EngineException :: step_result outcome)) demo_os))
       = [(EngineStep, Some DevNull, Some DevNull)]
   \<and> length (released (fst (suppress_output True
             (call_engine EngineStep (Raised EngineException :: step_result outcome)) demo_os)))
       = 5
   \<and> restored_after demo_os
        (fst (reset_io True (\<lambda>c. Returned ()) (Raised PanicException) demo_os))
   \<and> list_all (call_ok (Stream 1) (Stream 2))
        (calls (fst (reset_io True (\<lambda>c. Returned ()) (Raised PanicException) demo_os)))
   \<and> calls (fst (step_io (demo_env1\<lparr>quiet := True\<rparr>) (Raised EngineException)
                   (Returned (Some 0, Some 4)) demo_os))
       = [(EngineStep, Some DevNull, Some DevNull)]"
proof -
  from output_suppression[OF demo_os_pre,
      of EngineStep "Raised EngineException :: step_result outcome"
         "\<lambda>c. Returned ()" "Raised PanicException" demo_env1 "Raised EngineException"
         "Returned (Some 0, Some 4)"]
  obtain s' ds s'' res new s3 res3 where
    g: "suppress_output True
          (call_engine EngineStep (Raised EngineException :: step_result outcome)) demo_os
        = (s', Raised EngineException)"
       "restored_after demo_os s'"
       "calls s' = calls demo_os @ [(EngineStep, Some DevNull, Some DevNull)]"
       "released s' = released demo_os @ ds" "length ds = 5" and
    r: "reset_io True (\<lambda>c. Returned ()) (Raised PanicException) demo_os = (s'', res)"
       "restored_after demo_os s''"
       "calls s'' = calls demo_os @ new" "list_all (call_ok (Stream 1) (Stream 2)) new" and
    t: "step_io (demo_env1\<lparr>quiet := True\<rparr>) (Raised EngineException)
          (Returned (Some 0, Some 4)) demo_os = (s3, res3)"
       "calls s3 = calls demo_os @ [(EngineStep, Some DevNull, Some DevNull)]"
    by auto
  have "calls demo_os = []" "released demo_os = []" by (simp_all add: demo_os_def)
  with g r t show ?thesis by simp
qed

end
